theory Spec2Isabelle
  imports Complex_Main "HOL-Library.Sublist" "HOL-Library.AList"
    "HOL-Library.Code_Target_Numeral"
begin

section \<open>Strings\<close>

text \<open>
  A JavaScript string is modelled as a \<^typ>\<open>string\<close>, one \<^typ>\<open>char\<close> per UTF-16 code
  unit: the strings covered are those whose code units are below 256 (U+0000 to U+00FF).
  On them \<open>toLowerCase\<close>, \<open>trim\<close> and the white space skipped by \<open>parseFloat\<close> are as
  ECMAScript defines them. Upper-casing can leave this range (U+00B5 becomes U+039C,
  U+00FF becomes U+0178) and can lengthen a string (U+00DF becomes \<open>SS\<close>), so
  \<open>toUpperCase\<close> gives the code units of its result as natural numbers.
\<close>

definition upper_units :: "char \<Rightarrow> nat list" where
  "upper_units c =
     (let n = (of_char c :: nat)
      in if 97 \<le> n \<and> n \<le> 122 then [n - 32]
         else if n = 181 then [924]
         else if n = 223 then [83, 83]
         else if 224 \<le> n \<and> n \<le> 254 \<and> n \<noteq> 247 then [n - 32]
         else if n = 255 then [376]
         else [n])"

definition toLowerChar :: "char \<Rightarrow> char" where
  "toLowerChar c =
     (let n = (of_char c :: nat)
      in if (65 \<le> n \<and> n \<le> 90) \<or> (192 \<le> n \<and> n \<le> 222 \<and> n \<noteq> 215) then char_of (n + 32)
         else c)"

definition toUpperCase :: "string \<Rightarrow> nat list" where
  "toUpperCase s = concat (map upper_units s)"

definition toLowerCase :: "string \<Rightarrow> string" where
  "toLowerCase s = map toLowerChar s"

text \<open>The code units of a string.\<close>

definition code_units :: "string \<Rightarrow> nat list" where
  "code_units s = map of_char s"

text \<open>\<open>t.includes(k)\<close>: \<open>k\<close> occurs in \<open>t\<close> as a contiguous run.\<close>

fun str_includes :: "'a list \<Rightarrow> 'a list \<Rightarrow> bool" where
  "str_includes [] k = (k = [])"
| "str_includes (x # xs) k = (prefix k (x # xs) \<or> str_includes xs k)"

section \<open>The category classifier\<close>

type_synonym category = string

record rule =
  cat :: category
  inc :: "string list"

definition RULES :: "rule list" where
  "RULES =
    [\<lparr>cat = ''war'', inc = [''WAR'', ''MILITARY'', ''ARMS'', ''CONFLICT'', ''TERROR'']\<rparr>,
     \<lparr>cat = ''crime'', inc = [''CRIME'', ''KIDNAP'', ''MURDER'', ''ARREST'', ''CORRUPTION'']\<rparr>,
     \<lparr>cat = ''politics'', inc = [''ELECTION'', ''POLITICS'', ''GOVERNMENT'', ''PROTEST'']\<rparr>,
     \<lparr>cat = ''entertainment'', inc = [''ENTERTAINMENT'', ''CELEBRITY'', ''FILM'', ''MUSIC'']\<rparr>,
     \<lparr>cat = ''disaster'',
      inc = [''NATURAL_DISASTER'', ''EARTHQUAKE'', ''FLOOD'', ''HURRICANE'', ''WILDFIRE'']\<rparr>,
     \<lparr>cat = ''sports'', inc = [''SPORTS'', ''SOCCER'', ''BASKETBALL'', ''OLYMPICS'']\<rparr>,
     \<lparr>cat = ''tech'', inc = [''TECH'', ''AI'', ''CYBERSECURITY'']\<rparr>,
     \<lparr>cat = ''economy'', inc = [''ECONOMY'', ''MARKETS'', ''INFLATION'', ''JOBS'']\<rparr>]"

text \<open>The \<open>for (const r of RULES) if (...) return r.cat\<close> loop over an upper-cased theme list.\<close>

fun first_rule :: "nat list list \<Rightarrow> rule list \<Rightarrow> category option" where
  "first_rule up [] = None"
| "first_rule up (r # rs) =
     (if list_ex (\<lambda>k. list_ex (\<lambda>t. str_includes t (code_units k)) up) (inc r) then Some (cat r)
      else first_rule up rs)"

definition mapThemesToCategory :: "string list \<Rightarrow> category option" where
  "mapThemesToCategory tags = first_rule (map toUpperCase tags) RULES"

text \<open>
  The classifier as the specification words it. Two characters are equal up to letter
  case when they are equal or one is the lower-case form of the other (the upper-case
  letters are U+0041 to U+005A and U+00C0 to U+00DE without U+00D7, the lower-case form
  is 32 above). A keyword is a case-insensitive substring of a tag when some contiguous
  run of the tag equals it, character by character, up to letter case; a rule matches
  when one of its keywords is such a substring of one of the tags; the first matching
  rule of the table gives the category.
\<close>

definition upper_letter :: "nat \<Rightarrow> bool" where
  "upper_letter n \<longleftrightarrow> (65 \<le> n \<and> n \<le> 90) \<or> (192 \<le> n \<and> n \<le> 222 \<and> n \<noteq> 215)"

definition ci_eq_char :: "char \<Rightarrow> char \<Rightarrow> bool" where
  "ci_eq_char a b \<longleftrightarrow>
     (let m = (of_char a :: nat); n = (of_char b :: nat)
      in m = n \<or> (upper_letter m \<and> n = m + 32) \<or> (upper_letter n \<and> m = n + 32))"

definition ci_substring :: "string \<Rightarrow> string \<Rightarrow> bool" where
  "ci_substring k t \<longleftrightarrow> (\<exists>s. sublist s t \<and> list_all2 ci_eq_char s k)"

definition rule_matches :: "string list \<Rightarrow> rule \<Rightarrow> bool" where
  "rule_matches tags r \<longleftrightarrow> (\<exists>k \<in> set (inc r). \<exists>t \<in> set tags. ci_substring k t)"


text \<open>The same search, run on a tag from each position.\<close>

fun ci_includes :: "string \<Rightarrow> string \<Rightarrow> bool" where
  "ci_includes [] k = (k = [])"
| "ci_includes (x # xs) k =
     ((length k \<le> length (x # xs) \<and> list_all2 ci_eq_char (take (length k) (x # xs)) k)
      \<or> ci_includes xs k)"

text \<open>
  What the code tests instead: a keyword occurs in the upper-cased tag.
\<close>

definition upper_matches :: "string list \<Rightarrow> rule \<Rightarrow> bool" where
  "upper_matches tags r \<longleftrightarrow>
     (\<exists>k \<in> set (inc r). \<exists>t \<in> set tags. sublist (code_units k) (toUpperCase t))"



section \<open>Numbers\<close>

text \<open>
  A JavaScript number is \<open>NaN\<close>, an infinity or a finite double. A finite double is
  carried by its exact rational value; the two zeros are not told apart (nothing in the
  pipeline does: \<open>toFixed\<close> prints both as \<open>0.000\<close>).
\<close>

datatype jsnum = NaN | PosInf | NegInf | Fin rat

text \<open>\<open>Number.isFinite\<close>\<close>

definition is_finite :: "jsnum \<Rightarrow> bool" where
  "is_finite x = (case x of Fin q \<Rightarrow> True | _ \<Rightarrow> False)"

definition pow2 :: "int \<Rightarrow> rat" where
  "pow2 k = (if 0 \<le> k then 2 ^ nat k else 1 / 2 ^ nat (- k))"

definition pow10 :: "int \<Rightarrow> rat" where
  "pow10 k = (if 0 \<le> k then 10 ^ nat k else 1 / 10 ^ nat (- k))"

fun bitlen :: "nat \<Rightarrow> nat" where
  "bitlen n = (if n = 0 then 0 else Suc (bitlen (n div 2)))"

declare bitlen.simps [simp del]

text \<open>The integer \<open>e\<close> with \<open>2^e \<le> q < 2^(e+1)\<close>, for a positive \<open>q\<close>.\<close>

definition ilog2 :: "rat \<Rightarrow> int" where
  "ilog2 q =
     (let (a, b) = quotient_of q;
          k = int (bitlen (nat a)) - int (bitlen (nat b))
      in if pow2 k \<le> q then k else k - 1)"

definition round_half_even :: "rat \<Rightarrow> int" where
  "round_half_even r =
     (let f = \<lfloor>r\<rfloor>; d = r - of_int f
      in if d < 1 / 2 then f else if 1 / 2 < d then f + 1 else if even f then f else f + 1)"

text \<open>
  The double nearest to a positive rational (IEEE 754 binary64, ties to even): 53
  significant bits, the smallest step \<open>2^-1074\<close>. The result may be \<open>2^1024\<close> or more
  (its binary logarithm is 1024 or more), which the caller turns into an infinity.
\<close>

definition round_pos :: "rat \<Rightarrow> rat" where
  "round_pos q =
     (let p = max (ilog2 q - 52) (- 1074)
      in of_int (round_half_even (q / pow2 p)) * pow2 p)"

definition to_double :: "rat \<Rightarrow> jsnum" where
  "to_double q =
     (if q = 0 then Fin 0
      else let v = round_pos \<bar>q\<bar>
           in if 1024 \<le> ilog2 v then (if 0 < q then PosInf else NegInf)
              else Fin (if 0 < q then v else - v))"

definition is_digit :: "char \<Rightarrow> bool" where
  "is_digit c \<longleftrightarrow> (let n = (of_char c :: nat) in 48 \<le> n \<and> n \<le> 57)"

text \<open>
  The white space and line terminators of ECMAScript among the code units below 256:
  TAB, LF, VT, FF, CR, SP and NBSP (U+00A0).
\<close>

definition is_ws :: "char \<Rightarrow> bool" where
  "is_ws c \<longleftrightarrow> (let n = (of_char c :: nat) in (9 \<le> n \<and> n \<le> 13) \<or> n = 32 \<or> n = 160)"

definition dec_value :: "string \<Rightarrow> nat" where
  "dec_value ds = foldl (\<lambda>a c. 10 * a + (of_char c - 48)) 0 ds"

text \<open>
  \<open>parseFloat\<close>: leading white space is skipped, then the longest prefix that is a
  \<open>StrDecimalLiteral\<close> is read (a sign, then \<open>Infinity\<close> or decimal digits with an optional
  fraction and an optional exponent); anything after it is ignored, and no such prefix
  gives \<open>NaN\<close>.
\<close>

datatype literal = NoLiteral | InfLiteral | DecLiteral rat

definition signed_integer :: "string \<Rightarrow> int option" where
  "signed_integer s =
     (case s of
        [] \<Rightarrow> None
      | c # r \<Rightarrow>
          if c = CHR ''+'' then
            (if takeWhile is_digit r = [] then None
             else Some (int (dec_value (takeWhile is_digit r))))
          else if c = CHR ''-'' then
            (if takeWhile is_digit r = [] then None
             else Some (- int (dec_value (takeWhile is_digit r))))
          else
            (if takeWhile is_digit s = [] then None
             else Some (int (dec_value (takeWhile is_digit s)))))"

definition exponent_part :: "string \<Rightarrow> int" where
  "exponent_part s =
     (case s of
        [] \<Rightarrow> 0
      | c # r \<Rightarrow>
          if c = CHR ''e'' \<or> c = CHR ''E'' then
            (case signed_integer r of None \<Rightarrow> 0 | Some e \<Rightarrow> e)
          else 0)"

definition unsigned_literal :: "string \<Rightarrow> literal" where
  "unsigned_literal s =
     (if prefix ''Infinity'' s then InfLiteral
      else
        let d1 = takeWhile is_digit s; r1 = dropWhile is_digit s
        in case r1 of
             [] \<Rightarrow> if d1 = [] then NoLiteral else DecLiteral (of_nat (dec_value d1))
           | c # r2 \<Rightarrow>
               if c = CHR ''.'' then
                 (let d2 = takeWhile is_digit r2; r3 = dropWhile is_digit r2
                  in if d1 = [] \<and> d2 = [] then NoLiteral
                     else DecLiteral (of_nat (dec_value (d1 @ d2))
                                      * pow10 (exponent_part r3 - int (length d2))))
               else if d1 = [] then NoLiteral
               else DecLiteral (of_nat (dec_value d1) * pow10 (exponent_part r1)))"

definition literal_value :: "bool \<Rightarrow> literal \<Rightarrow> jsnum" where
  "literal_value neg l =
     (case l of
        NoLiteral \<Rightarrow> NaN
      | InfLiteral \<Rightarrow> (if neg then NegInf else PosInf)
      | DecLiteral q \<Rightarrow> to_double (if neg then - q else q))"

definition parseFloat :: "string \<Rightarrow> jsnum" where
  "parseFloat s =
     (case dropWhile is_ws s of
        [] \<Rightarrow> NaN
      | c # r \<Rightarrow>
          if c = CHR ''+'' then literal_value False (unsigned_literal r)
          else if c = CHR ''-'' then literal_value True (unsigned_literal r)
          else literal_value False (unsigned_literal (c # r)))"

definition digit_char :: "nat \<Rightarrow> char" where
  "digit_char d = char_of (48 + d)"

fun digits_of :: "nat \<Rightarrow> string" where
  "digits_of n =
     (if n < 10 then [digit_char n] else digits_of (n div 10) @ [digit_char (n mod 10)])"

declare digits_of.simps [simp del]

text \<open>
  \<open>Number::toString\<close> for a double \<open>a \<ge> 10^21\<close>: the shortest decimal digit string \<open>s\<close>
  (at most 17 digits) with \<open>s \<times> 10^(n-k)\<close> rounding to \<open>a\<close>, the candidate nearest to
  \<open>a\<close> when two have that length, printed as \<open>d.ddde+x\<close>.
\<close>

definition candidates :: "rat \<Rightarrow> nat \<Rightarrow> nat \<Rightarrow> nat list" where
  "candidates a d k =
     (let scale = 10 ^ (d - k); s0 = nat \<lfloor>a\<rfloor> div scale
      in filter (\<lambda>s. to_double (of_nat (s * scale)) = Fin a) [s0, s0 + 1])"

definition nearest :: "rat \<Rightarrow> nat \<Rightarrow> nat \<Rightarrow> nat list \<Rightarrow> nat" where
  "nearest a d k cs =
     (case cs of
        [s] \<Rightarrow> s
      | [s0, s1] \<Rightarrow>
          (let scale = 10 ^ (d - k);
               e0 = \<bar>of_nat (s0 * scale) - a\<bar>; e1 = \<bar>of_nat (s1 * scale) - a\<bar>
           in if e0 < e1 then s0 else if e1 < e0 then s1 else if even s0 then s0 else s1)
      | _ \<Rightarrow> nat \<lfloor>a\<rfloor> div 10 ^ (d - k))"

definition exp_format :: "string \<Rightarrow> nat \<Rightarrow> string" where
  "exp_format ds e =
     (if length ds = 1 then ds else hd ds # CHR ''.'' # tl ds) @ ''e+'' @ digits_of e"

definition big_toString :: "rat \<Rightarrow> string" where
  "big_toString a =
     (let d = length (digits_of (nat \<lfloor>a\<rfloor>));
          k = (case find (\<lambda>k. candidates a d k \<noteq> []) [1..<18] of None \<Rightarrow> 17 | Some k \<Rightarrow> k);
          s = nearest a d k (candidates a d k)
      in if s = 10 ^ k then exp_format ''1'' d else exp_format (digits_of s) (d - 1))"

text \<open>
  \<open>x.toFixed(3)\<close>: a non-finite number prints as itself; otherwise a minus sign when
  \<open>x < 0\<close>, then \<open>Number::toString\<close> when the magnitude is \<open>10^21\<close> or more, else the
  integer \<open>n\<close> nearest to the magnitude times 1000 (the larger of two), padded to four
  digits, with the point before its last three digits.
\<close>

definition fixed_format :: "string \<Rightarrow> string" where
  "fixed_format m =
     (let m' = (if length m \<le> 3 then replicate (4 - length m) CHR ''0'' @ m else m);
          k = length m'
      in take (k - 3) m' @ ''.'' @ drop (k - 3) m')"

definition toFixed3 :: "jsnum \<Rightarrow> string" where
  "toFixed3 x =
     (case x of
        NaN \<Rightarrow> ''NaN''
      | PosInf \<Rightarrow> ''Infinity''
      | NegInf \<Rightarrow> ''-Infinity''
      | Fin q \<Rightarrow>
          (if q < 0 then ''-'' else '''')
          @ (if 10 ^ 21 \<le> \<bar>q\<bar> then big_toString \<bar>q\<bar>
             else fixed_format (digits_of (nat \<lfloor>\<bar>q\<bar> * 1000 + 1 / 2\<rfloor>))))"

section \<open>The record parser\<close>

datatype error = Error string

record geo =
  name :: string
  lat :: jsnum
  lon :: jsnum
  country :: string

record event_fact =
  themes :: "string list"
  locations :: "geo list"

text \<open>\<open>s.split(c)\<close> for a one-character separator: never empty, \<open>''''\<close> gives \<open>['''']\<close>.\<close>

fun split_on :: "char \<Rightarrow> string \<Rightarrow> string list" where
  "split_on c [] = [[]]"
| "split_on c (x # xs) =
     (if x = c then [] # split_on c xs
      else case split_on c xs of [] \<Rightarrow> [[x]] | w # ws \<Rightarrow> (x # w) # ws)"

definition trim :: "string \<Rightarrow> string" where
  "trim s = rev (dropWhile is_ws (rev (dropWhile is_ws s)))"

text \<open>\<open>p[i] || d\<close> on an array of strings: a missing or empty entry gives the default.\<close>

definition field_or :: "string list \<Rightarrow> nat \<Rightarrow> string \<Rightarrow> string" where
  "field_or p i d = (if i < length p \<and> p ! i \<noteq> [] then p ! i else d)"

text \<open>The body of the \<open>v2locs.map\<close> callback; \<open>None\<close> is its \<open>return null\<close>.\<close>

definition parse_token :: "string \<Rightarrow> geo option" where
  "parse_token tok =
     (let p = split_on CHR ''#'' tok;
          name = field_or p 0 '''';
          lat = parseFloat (field_or p 4 ''0'');
          lon = parseFloat (field_or p 5 ''0'');
          country = field_or p 2 ''''
      in if name = '''' \<or> lat = NaN \<or> lon = NaN then None
         else Some \<lparr>name = name, lat = lat, lon = lon, country = country\<rparr>)"

text \<open>One iteration of \<open>for (const cols of rows)\<close>: the fact pushed to \<open>out\<close>.\<close>

definition parse_row :: "string list \<Rightarrow> event_fact" where
  "parse_row cols =
     (let themes = filter (\<lambda>s. s \<noteq> []) (split_on CHR '';'' (field_or cols 4 ''''));
          v2locs = filter (\<lambda>s. s \<noteq> []) (split_on CHR '';'' (field_or cols 8 ''''))
      in \<lparr>themes = themes, locations = List.map_filter parse_token v2locs\<rparr>)"

definition feed_rows :: "string \<Rightarrow> string list list" where
  "feed_rows data = map (split_on (char_of (9::nat))) (split_on (char_of (10::nat)) (trim data))"

definition parse_feed :: "string \<Rightarrow> event_fact list" where
  "parse_feed data = map parse_row (feed_rows data)"

text \<open>
  \<open>fetchGKGLastHour\<close>: the argument is the outcome of \<open>axios.get\<close>, an error when the
  request throws and the response text otherwise.
\<close>

definition fetchGKGLastHour :: "error + string \<Rightarrow> error + event_fact list" where
  "fetchGKGLastHour response =
     (case response of Inl e \<Rightarrow> Inl e | Inr data \<Rightarrow> Inr (parse_feed data))"

section \<open>Configuration\<close>

text \<open>
  The constants read from the environment. The three numbers come from \<open>parseInt\<close>; they
  are integers here, so an environment value that \<open>parseInt\<close> turns into \<open>NaN\<close> is not
  covered.
\<close>

record config =
  WINDY_KEY :: string
  YT_KEY :: string
  RADIUS_KM :: int
  TOP_N :: int
  MAX_CAMS :: int

definition default_config :: config where
  "default_config =
     \<lparr>WINDY_KEY = '''', YT_KEY = '''', RADIUS_KM = 100, TOP_N = 8, MAX_CAMS = 10\<rparr>"

text \<open>\<open>xs.slice(0, n)\<close>: a negative \<open>n\<close> counts from the end.\<close>

definition slice0 :: "int \<Rightarrow> 'a list \<Rightarrow> 'a list" where
  "slice0 n xs = (if n < 0 then take (nat (int (length xs) + n)) xs else take (nat n) xs)"

section \<open>The place aggregator\<close>

text \<open>
  The \<open>Map\<close> of buckets and the \<open>counts\<close> object are association lists in insertion
  order: \<^const>\<open>AList.update\<close> replaces the value of a key that is present, in place, and
  appends a new key at the end, as \<open>Map.prototype.set\<close> and an assignment to a string
  property do. Counts are natural numbers.
\<close>

record bucket = geo +
  counts :: "(category \<times> nat) list"

definition bucket_id :: "geo \<Rightarrow> string" where
  "bucket_id loc = toFixed3 (lat loc) @ '','' @ toFixed3 (lon loc) @ '':'' @ name loc"

text \<open>\<open>curr.counts[cat] = (curr.counts[cat] || 0) + 1\<close>\<close>

definition bump :: "category \<Rightarrow> (category \<times> nat) list \<Rightarrow> (category \<times> nat) list" where
  "bump c cs = AList.update c ((case map_of cs c of None \<Rightarrow> 0 | Some n \<Rightarrow> n) + 1) cs"

text \<open>The body of \<open>for (const loc of row.locations || [])\<close>.\<close>

definition add_mention :: "category \<Rightarrow> (string \<times> bucket) list \<Rightarrow> geo \<Rightarrow> (string \<times> bucket) list"
  where
  "add_mention c buckets loc =
     (let id = bucket_id loc;
          curr = (case map_of buckets id of
                    Some b \<Rightarrow> b
                  | None \<Rightarrow> \<lparr>name = name loc, lat = lat loc, lon = lon loc,
                             country = country loc, counts = []\<rparr>)
      in AList.update id (curr\<lparr>counts := bump c (counts curr)\<rparr>) buckets)"

text \<open>The body of \<open>for (const row of gkg)\<close>; a row without a category is skipped.\<close>

definition add_row :: "(string \<times> bucket) list \<Rightarrow> event_fact \<Rightarrow> (string \<times> bucket) list" where
  "add_row buckets row =
     (case mapThemesToCategory (themes row) of
        None \<Rightarrow> buckets
      | Some c \<Rightarrow> foldl (add_mention c) buckets (locations row))"

definition aggregate :: "event_fact list \<Rightarrow> (string \<times> bucket) list" where
  "aggregate gkg = foldl add_row [] gkg"

section \<open>The ranker\<close>

record ranked = bucket +
  score :: nat

text \<open>\<open>{ ...p, score: count }\<close>\<close>

definition with_score :: "bucket \<Rightarrow> nat \<Rightarrow> ranked" where
  "with_score p n =
     \<lparr>name = name p, lat = lat p, lon = lon p, country = country p, counts = counts p,
      score = n\<rparr>"

text \<open>\<open>if (!cats[cat]) cats[cat] = []; cats[cat].push({ ...p, score: count })\<close>\<close>

definition push_ranked ::
  "bucket \<Rightarrow> (category \<times> ranked list) list \<Rightarrow> category \<times> nat \<Rightarrow> (category \<times> ranked list) list"
  where
  "push_ranked p cats e =
     AList.update (fst e)
       ((case map_of cats (fst e) of None \<Rightarrow> [] | Some l \<Rightarrow> l) @ [with_score p (snd e)])
       cats"

definition group_places :: "bucket list \<Rightarrow> (category \<times> ranked list) list" where
  "group_places places = foldl (\<lambda>cats p. foldl (push_ranked p) cats (counts p)) [] places"

text \<open>
  \<open>_.orderBy(list, ["score"], ["desc"])\<close> of lodash: a stable sort, larger scores first.
\<close>

definition orderBy_score_desc :: "ranked list \<Rightarrow> ranked list" where
  "orderBy_score_desc l = sort_key (\<lambda>p. - int (score p)) l"

definition rankPlaces :: "config \<Rightarrow> bucket list \<Rightarrow> (category \<times> ranked list) list" where
  "rankPlaces cfg places =
     map (\<lambda>(c, l). (c, slice0 (TOP_N cfg) (orderBy_score_desc l))) (group_places places)"

section \<open>The camera enricher\<close>

text \<open>
  The values of a provider's JSON that the code reads: \<open>undefined\<close> (also for a missing
  property), \<open>null\<close>, booleans, numbers and strings.
\<close>

datatype jsval = Undefined | Null | JBool bool | JNum jsnum | JStr string

fun truthy :: "jsval \<Rightarrow> bool" where
  "truthy Undefined = False"
| "truthy Null = False"
| "truthy (JBool b) = b"
| "truthy (JNum n) = (n \<noteq> NaN \<and> n \<noteq> Fin 0)"
| "truthy (JStr s) = (s \<noteq> [])"

definition js_or :: "jsval \<Rightarrow> jsval \<Rightarrow> jsval" where
  "js_or a b = (if truthy a then a else b)"

text \<open>\<open>a === b\<close>: equality, except that \<open>NaN\<close> is not equal to itself.\<close>

definition strict_eq :: "jsval \<Rightarrow> jsval \<Rightarrow> bool" where
  "strict_eq a b \<longleftrightarrow> a = b \<and> a \<noteq> JNum NaN"

record camera =
  cam_id :: jsval
  title :: jsval
  image :: jsval
  player :: jsval
  url :: jsval
  source :: string
  verified :: bool

text \<open>
  One element of \<open>data.result.webcams\<close>, by the properties the code reads:
  \<open>status\<close>, \<open>player.live.available\<close>, \<open>id\<close>, \<open>title\<close>, \<open>image.current.preview\<close>,
  \<open>player.live.embed\<close>, \<open>player.live.link\<close> and \<open>url.current.desktop\<close>.
\<close>

record windy_webcam =
  w_status :: jsval
  w_available :: jsval
  w_id :: jsval
  w_title :: jsval
  w_preview :: jsval
  w_embed :: jsval
  w_link :: jsval
  w_desktop :: jsval

text \<open>
  The \<open>filter\<close> callback of \<open>windyNearby\<close>. A status that is truthy and not a string has
  no \<open>toLowerCase\<close>, and the call throws.
\<close>

definition windy_keep :: "windy_webcam \<Rightarrow> error + bool" where
  "windy_keep c =
     (case js_or (w_status c) (JStr '''') of
        JStr s \<Rightarrow> Inr (toLowerCase s = ''active'' \<and> truthy (w_available c))
      | _ \<Rightarrow> Inl (Error ''toLowerCase is not a function''))"

fun filter_keep :: "windy_webcam list \<Rightarrow> error + windy_webcam list" where
  "filter_keep [] = Inr []"
| "filter_keep (c # cs) =
     (case windy_keep c of
        Inl e \<Rightarrow> Inl e
      | Inr b \<Rightarrow> (case filter_keep cs of
                   Inl e \<Rightarrow> Inl e
                 | Inr kept \<Rightarrow> Inr (if b then c # kept else kept)))"

definition windy_camera :: "windy_webcam \<Rightarrow> camera" where
  "windy_camera c =
     \<lparr>cam_id = w_id c, title = w_title c, image = w_preview c, player = w_embed c,
      url = js_or (js_or (w_link c) (w_desktop c)) (JStr ''''),
      source = ''windy'', verified = True\<rparr>"

text \<open>
  \<open>windyNearby\<close>: the second argument is the outcome of the request, an error when
  \<open>axios.get\<close> throws (or the response has no array of webcams to filter) and the
  elements of \<open>data.result.webcams\<close> (none when that is missing) otherwise.
\<close>

definition windyNearby :: "config \<Rightarrow> error + windy_webcam list \<Rightarrow> error + camera list" where
  "windyNearby cfg response =
     (if WINDY_KEY cfg = '''' then Inr []
      else case response of
             Inl e \<Rightarrow> Inl e
           | Inr webcams \<Rightarrow>
               (case filter_keep webcams of
                  Inl e \<Rightarrow> Inl e
                | Inr kept \<Rightarrow> Inr (slice0 (MAX_CAMS cfg) (map windy_camera kept))))"

text \<open>One element of \<open>data.items\<close>: \<open>id.videoId\<close>, \<open>snippet.title\<close>,
  \<open>snippet.thumbnails.medium.url\<close>.\<close>

record yt_item =
  videoId :: string
  snippet_title :: jsval
  thumbnail :: jsval

definition yt_camera :: "yt_item \<Rightarrow> camera" where
  "yt_camera v =
     \<lparr>cam_id = JStr (videoId v), title = snippet_title v, image = thumbnail v,
      player = JStr (''https://www.youtube.com/embed/'' @ videoId v),
      url = JStr (''https://www.youtube.com/watch?v='' @ videoId v),
      source = ''youtube'', verified = True\<rparr>"

text \<open>
  \<open>ytSearch\<close>: the second argument gives the outcome of the request for each query, an
  error when the call throws.
\<close>

definition ytSearch :: "config \<Rightarrow> (string \<Rightarrow> error + yt_item list) \<Rightarrow> string \<Rightarrow> error + camera list"
  where
  "ytSearch cfg response q =
     (if YT_KEY cfg = '''' then Inr []
      else case response q of Inl e \<Rightarrow> Inl e | Inr items \<Rightarrow> Inr (map yt_camera items))"

text \<open>What the two providers answer during one call of \<open>findCamsForPlace\<close>.\<close>

record providers =
  windy_response :: "error + windy_webcam list"
  yt_response :: "string \<Rightarrow> error + yt_item list"

definition kws :: "string list" where
  "kws = [''live cam'', ''traffic cam'', ''weather cam'', ''city cam'', ''library cam'',
          ''airport cam'', ''public cam'', ''webcam live'']"

text \<open>The inner loop \<open>for (const c of more)\<close>, on the array \<open>cams\<close>.\<close>

fun push_new :: "config \<Rightarrow> camera list \<Rightarrow> camera list \<Rightarrow> camera list" where
  "push_new cfg cams [] = cams"
| "push_new cfg cams (c # found) =
     (let cams' = (if list_ex (\<lambda>x. strict_eq (url x) (url c)) cams then cams else cams @ [c])
      in if MAX_CAMS cfg \<le> int (length cams') then cams' else push_new cfg cams' found)"

text \<open>
  The loop \<open>for (const kw of kws)\<close> inside the \<open>try\<close> block. The result is the array
  \<open>cams\<close> when the loop is left, with the error that left it, if any: the array is
  updated in place, so what was pushed before a throw stays.
\<close>

fun search_phrases ::
  "config \<Rightarrow> (string \<Rightarrow> error + yt_item list) \<Rightarrow> string \<Rightarrow> camera list \<Rightarrow> string list
   \<Rightarrow> error option \<times> camera list"
  where
  "search_phrases cfg yt nm cams [] = (None, cams)"
| "search_phrases cfg yt nm cams (kw # rest) =
     (if MAX_CAMS cfg \<le> int (length cams) then (None, cams)
      else case ytSearch cfg yt (nm @ '' '' @ kw) of
             Inl e \<Rightarrow> (Some e, cams)
           | Inr found \<Rightarrow> search_phrases cfg yt nm (push_new cfg cams found) rest)"

text \<open>\<open>_.uniqBy\<close> of lodash: the first element of each key is kept, in order.\<close>

fun baseUniq :: "('a \<Rightarrow> 'k) \<Rightarrow> 'k list \<Rightarrow> 'a list \<Rightarrow> 'a list" where
  "baseUniq f seen [] = []"
| "baseUniq f seen (x # xs) =
     (if f x \<in> set seen then baseUniq f seen xs else x # baseUniq f (seen @ [f x]) xs)"

definition uniqBy :: "('a \<Rightarrow> 'k) \<Rightarrow> 'a list \<Rightarrow> 'a list" where
  "uniqBy f xs = baseUniq f [] xs"

text \<open>The identity key \<open>c.url || c.player || c.id\<close>.\<close>

definition identity_key :: "camera \<Rightarrow> jsval" where
  "identity_key c = js_or (js_or (url c) (player c)) (cam_id c)"

definition findCamsForPlace :: "config \<Rightarrow> providers \<Rightarrow> ranked \<Rightarrow> camera list" where
  "findCamsForPlace cfg net p =
     (let cams0 = (case windyNearby cfg (windy_response net) of Inl e \<Rightarrow> [] | Inr ws \<Rightarrow> ws);
          cams1 = (if int (length cams0) < MAX_CAMS cfg
                   then snd (search_phrases cfg (yt_response net) (name p) cams0 kws)
                   else cams0)
      in slice0 (MAX_CAMS cfg) (uniqBy identity_key cams1))"

section \<open>The ingest job\<close>

text \<open>
  The published state. \<open>place\<close> is \<open>{name, country, lat, lon, score}\<close>; an element of
  \<open>places\<close> is \<open>{category, ...p, cams}\<close>, its camera list under the field name
  \<open>place_cams\<close> here.
\<close>

record place_summary = geo +
  place_score :: nat

record cam_view =
  v_title :: jsval
  v_url :: jsval
  v_image :: jsval
  v_source :: string
  v_player :: jsval

record entry =
  place :: place_summary
  cams :: "cam_view list"

record enriched = ranked +
  category :: category
  place_cams :: "camera list"

record snapshot =
  updatedAt :: "string option"
  categories :: "(category \<times> entry list) list"
  places :: "enriched list"

definition initial_STATE :: snapshot where
  "initial_STATE = \<lparr>updatedAt = None, categories = [], places = []\<rparr>"

definition make_entry :: "ranked \<Rightarrow> camera list \<Rightarrow> entry" where
  "make_entry p cs =
     \<lparr>place = \<lparr>name = name p, lat = lat p, lon = lon p, country = country p,
               place_score = score p\<rparr>,
      cams = map (\<lambda>c. \<lparr>v_title = title c, v_url = url c, v_image = image c,
                       v_source = source c, v_player = player c\<rparr>) cs\<rparr>"

definition make_enriched :: "category \<Rightarrow> ranked \<Rightarrow> camera list \<Rightarrow> enriched" where
  "make_enriched c p cs =
     \<lparr>name = name p, lat = lat p, lon = lon p, country = country p, counts = counts p,
      score = score p, category = c, place_cams = cs\<rparr>"

text \<open>
  The loop \<open>for (const p of placeList)\<close> on the pair of \<open>categories\<close> and \<open>places\<close>;
  \<open>net i\<close> is what the providers answer for the \<open>i\<close>-th place of the list. The key
  \<open>cat\<close> of \<open>categories\<close> exists when the loop runs.
\<close>

fun enrich_places ::
  "config \<Rightarrow> (nat \<Rightarrow> providers) \<Rightarrow> category \<Rightarrow> nat \<Rightarrow> ranked list
   \<Rightarrow> (category \<times> entry list) list \<times> enriched list
   \<Rightarrow> (category \<times> entry list) list \<times> enriched list"
  where
  "enrich_places cfg net c i [] st = st"
| "enrich_places cfg net c i (p # ps) st =
     (let cs = findCamsForPlace cfg (net i) p
      in if cs = [] then enrich_places cfg net c (Suc i) ps st
         else enrich_places cfg net c (Suc i) ps
                (AList.update c
                   ((case map_of (fst st) c of None \<Rightarrow> [] | Some l \<Rightarrow> l) @ [make_entry p cs])
                   (fst st),
                 snd st @ [make_enriched c p cs]))"

text \<open>The loop \<open>for (const [cat, placeList] of Object.entries(ranked))\<close>.\<close>

fun enrich_all ::
  "config \<Rightarrow> (category \<Rightarrow> nat \<Rightarrow> providers) \<Rightarrow> (category \<times> ranked list) list
   \<Rightarrow> (category \<times> entry list) list \<times> enriched list
   \<Rightarrow> (category \<times> entry list) list \<times> enriched list"
  where
  "enrich_all cfg net [] st = st"
| "enrich_all cfg net (e # rest) st =
     enrich_all cfg net rest
       (enrich_places cfg (net (fst e)) (fst e) 0 (snd e) (AList.update (fst e) [] (fst st), snd st))"

text \<open>
  \<open>ingestOnce\<close>, as a function of the outcome of the feed request, of the providers'
  answers (per category and position in its ranked list), of the clock and of the
  current \<open>STATE\<close>. It returns the error it throws, if any, and \<open>STATE\<close> afterwards.
\<close>

definition ingestOnce ::
  "config \<Rightarrow> error + string \<Rightarrow> (category \<Rightarrow> nat \<Rightarrow> providers) \<Rightarrow> string \<Rightarrow> snapshot
   \<Rightarrow> error option \<times> snapshot"
  where
  "ingestOnce cfg response net now STATE =
     (case fetchGKGLastHour response of
        Inl e \<Rightarrow> (Some e, STATE)
      | Inr gkg \<Rightarrow>
          (let buckets = aggregate gkg;
               ranked = rankPlaces cfg (map snd buckets);
               built = enrich_all cfg net ranked ([], [])
           in (None, \<lparr>updatedAt = Some now, categories = fst built, places = snd built\<rparr>)))"

text \<open>
  The boot call and the hourly job: \<open>try { await ingestOnce() } catch (e) { ... }\<close>.
  The error is logged and dropped.
\<close>

definition boot :: "config \<Rightarrow> error + string \<Rightarrow> (category \<Rightarrow> nat \<Rightarrow> providers) \<Rightarrow> string \<Rightarrow> snapshot \<Rightarrow> snapshot"
  where
  "boot cfg response net now STATE = snd (ingestOnce cfg response net now STATE)"

text \<open>
  What the enrichment loop keeps of one ranked list: the places whose camera list is
  not empty, each with that list, in order. \<open>netc i\<close> is the providers' answer for the
  place at position \<open>i\<close>.
\<close>

definition kept_places :: "config \<Rightarrow> (nat \<Rightarrow> providers) \<Rightarrow> nat \<Rightarrow> ranked list \<Rightarrow> (ranked \<times> camera list) list"
  where
  "kept_places cfg netc i l =
     filter (\<lambda>pc. snd pc \<noteq> [])
       (map (\<lambda>ip. (snd ip, findCamsForPlace cfg (netc (fst ip)) (snd ip))) (enumerate i l))"

text \<open>The ranked places of a run, from the feed text.\<close>

definition ranked_of :: "config \<Rightarrow> string \<Rightarrow> (category \<times> ranked list) list" where
  "ranked_of cfg data = rankPlaces cfg (map snd (aggregate (parse_feed data)))"

text \<open>
  A feed of one row for the examples: nine tab-separated columns, the themes in the
  fifth and one geo token in the ninth.
\<close>

definition sample_feed :: string where
  "sample_feed =
     concat (map (\<lambda>c. c @ [CHR 0x09])
       [''20260101'', ''1'', ''src'', ''doc'', ''WAR_CRIMES;TAX_FNCACT'', ''f'', ''g'', ''h''])
     @ ''Kyiv#1#UA''"

definition failing_providers :: providers where
  "failing_providers =
     \<lparr>windy_response = Inl (Error ''timeout''), yt_response = (\<lambda>q. Inr [])\<rparr>"

definition keyed_config :: config where
  "keyed_config = default_config\<lparr>WINDY_KEY := ''w'', YT_KEY := ''y''\<rparr>"

section \<open>Notions of the specification about the parser\<close>

text \<open>The pieces of a delimited text put together again, the separator between them.\<close>

fun join :: "char \<Rightarrow> string list \<Rightarrow> string" where
  "join c [] = []"
| "join c [w] = w"
| "join c (w # v # ws) = w @ c # join c (v # ws)"

text \<open>A row of six columns, the themes in the fifth, and the feed made of that row.\<close>

definition six_columns :: "string list" where
  "six_columns = [''20260101'', ''1'', ''src'', ''doc'', ''WAR;CRIME'', ''f'']"

definition six_column_feed :: string where
  "six_column_feed = join (CHR 0x09) six_columns"

section \<open>Notions of the specification about the aggregation\<close>

text \<open>\<open>counts[cat]\<close> of a bucket, 0 when the bucket has no such key.\<close>

definition count_of :: "bucket \<Rightarrow> category \<Rightarrow> nat" where
  "count_of b c = (case map_of (counts b) c of None \<Rightarrow> 0 | Some n \<Rightarrow> n)"

text \<open>The sum of \<open>counts[cat]\<close> over all buckets.\<close>

definition total_count :: "(string \<times> bucket) list \<Rightarrow> category \<Rightarrow> nat" where
  "total_count buckets c = sum_list (map (\<lambda>kb. count_of (snd kb) c) buckets)"

text \<open>\<open>counts[cat]\<close> of the bucket under a key, 0 when there is no such bucket.\<close>

definition bucket_count :: "(string \<times> bucket) list \<Rightarrow> string \<Rightarrow> category \<Rightarrow> nat" where
  "bucket_count buckets k c = (case map_of buckets k of None \<Rightarrow> 0 | Some b \<Rightarrow> count_of b c)"

text \<open>The (fact, mention) pairs whose fact classifies to a category.\<close>

definition mention_pairs :: "event_fact list \<Rightarrow> category \<Rightarrow> (event_fact \<times> geo) list" where
  "mention_pairs gkg c =
     concat (map (\<lambda>row. map (Pair row) (locations row))
               (filter (\<lambda>row. mapThemesToCategory (themes row) = Some c) gkg))"

text \<open>The mentions of the facts that have a category, in the order of the feed.\<close>

definition classified_mentions :: "event_fact list \<Rightarrow> geo list" where
  "classified_mentions gkg =
     concat (map locations (filter (\<lambda>row. mapThemesToCategory (themes row) \<noteq> None) gkg))"

text \<open>A string without the two delimiters of a bucket key.\<close>

definition no_delimiter :: "string \<Rightarrow> bool" where
  "no_delimiter s \<longleftrightarrow> CHR '','' \<notin> set s \<and> CHR '':'' \<notin> set s"

text \<open>The \<open>name\<close>, \<open>lat\<close>, \<open>lon\<close> and \<open>country\<close> of a bucket.\<close>

definition bucket_geo :: "bucket \<Rightarrow> geo" where
  "bucket_geo b = \<lparr>name = name b, lat = lat b, lon = lon b, country = country b\<rparr>"

text \<open>Two mentions of one name just south and just north of the equator.\<close>

definition south :: geo where
  "south = \<lparr>name = ''Equator'', lat = Fin (- 1 / 4096), lon = Fin 0, country = ''EC''\<rparr>"

definition north :: geo where
  "north = \<lparr>name = ''Equator'', lat = Fin (1 / 4096), lon = Fin 0, country = ''EC''\<rparr>"

text \<open>A number rounded to three decimals, as a number.\<close>

definition round3 :: "jsnum \<Rightarrow> jsnum" where
  "round3 x = (case x of Fin q \<Rightarrow> Fin (of_int \<lfloor>q * 1000 + 1 / 2\<rfloor> / 1000) | _ \<Rightarrow> x)"

text \<open>A mention and a fact with two mentions of the same place, for the examples.\<close>

definition kyiv :: geo where
  "kyiv = \<lparr>name = ''Kyiv'', lat = Fin (101 / 2), lon = Fin (61 / 2), country = ''UA''\<rparr>"

definition war_row :: event_fact where
  "war_row = \<lparr>themes = [''MILITARY_ACTIVITY'', ''TERROR''], locations = [kyiv, kyiv]\<rparr>"

section \<open>Notions of the specification about the ranking\<close>

text \<open>
  The places of a category in first-seen order: for each bucket in the order of the
  aggregation map, its projection with the count of the category as score.
\<close>

definition ranked_candidates :: "category \<Rightarrow> bucket list \<Rightarrow> ranked list" where
  "ranked_candidates c ps =
     concat (map (\<lambda>p. map (\<lambda>e. with_score p (snd e)) (filter (\<lambda>e. fst e = c) (counts p))) ps)"

text \<open>Three buckets for the examples, with war counts 1, 2 and 2.\<close>

definition three_buckets :: "bucket list" where
  "three_buckets =
     [\<lparr>name = ''Kyiv'', lat = Fin (101 / 2), lon = Fin (61 / 2), country = ''UA'',
       counts = [(''war'', 1)]\<rparr>,
      \<lparr>name = ''Gaza'', lat = Fin (63 / 2), lon = Fin (69 / 2), country = ''PS'',
       counts = [(''war'', 2)]\<rparr>,
      \<lparr>name = ''Khartoum'', lat = Fin (31 / 2), lon = Fin (65 / 2), country = ''SD'',
       counts = [(''war'', 2)]\<rparr>]"

section \<open>Notions of the specification about the enricher\<close>

text \<open>
  The answers of the search provider with the phrases from position \<open>i\<close> on answered by
  zero results, for the place name \<open>nm\<close>.
\<close>

definition silenced ::
  "string \<Rightarrow> nat \<Rightarrow> (string \<Rightarrow> error + yt_item list) \<Rightarrow> string \<Rightarrow> error + yt_item list" where
  "silenced nm i yt q = (if q \<in> set (map (\<lambda>kw. nm @ '' '' @ kw) (drop i kws)) then Inr [] else yt q)"

text \<open>
  Providers for the examples. The first answers one webcam twice and one live video
  for the first phrase; the second has no webcam, fails on the first phrase and has a
  live video for the second phrase.
\<close>

definition kyiv_ranked :: ranked where
  "kyiv_ranked = with_score (three_buckets ! 0) 1"


definition live_item :: yt_item where
  "live_item = \<lparr>videoId = ''abc'', snippet_title = JStr ''Kyiv live'', thumbnail = Undefined\<rparr>"


definition flaky_providers :: providers where
  "flaky_providers =
     \<lparr>windy_response = Inr [],
      yt_response = (\<lambda>q. if q = ''Kyiv live cam'' then Inl (Error ''quota'')
                         else if q = ''Kyiv traffic cam'' then Inr [live_item] else Inr [])\<rparr>"

text \<open>The same, with the failure replaced by zero results for that one phrase.\<close>

definition patched_providers :: providers where
  "patched_providers =
     \<lparr>windy_response = Inr [],
      yt_response = (\<lambda>q. if q = ''Kyiv live cam'' then Inr []
                         else if q = ''Kyiv traffic cam'' then Inr [live_item] else Inr [])\<rparr>"

text \<open>
  Providers whose search gives a live video for the first phrase, fails on the second
  and would give another live video for every later phrase.
\<close>

definition late_failure_providers :: providers where
  "late_failure_providers =
     \<lparr>windy_response = Inr [],
      yt_response = (\<lambda>q. if q = ''Kyiv live cam'' then Inr [live_item]
                         else if q = ''Kyiv traffic cam'' then Inl (Error ''quota'')
                         else Inr [\<lparr>videoId = ''xyz'', snippet_title = JStr ''Kyiv cam'',
                                    thumbnail = Undefined\<rparr>])\<rparr>"

text \<open>A configuration with a negative \<open>TOP_N\<close>, and one with a negative \<open>MAX_CAMS\<close>.\<close>

definition negative_top_config :: config where
  "negative_top_config = default_config\<lparr>TOP_N := - 2\<rparr>"





section \<open>Properties of the classifier\<close>

lemma str_includes_sublist: "str_includes t k \<longleftrightarrow> sublist k t"
  by (induction t) (auto simp: sublist_Cons_right)


lemma prefix_all2_take:
  "(\<exists>s. prefix s ys \<and> list_all2 R s k) \<longleftrightarrow>
     length k \<le> length ys \<and> list_all2 R (take (length k) ys) k"
proof
  assume "\<exists>s. prefix s ys \<and> list_all2 R s k"
  then obtain s where s: "prefix s ys" "list_all2 R s k" by blast
  from s(2) have l: "length s = length k" by (rule list_all2_lengthD)
  from s(1) obtain zs where "ys = s @ zs" by (auto simp: prefix_def)
  with l s(2) show "length k \<le> length ys \<and> list_all2 R (take (length k) ys) k" by simp
next
  assume "length k \<le> length ys \<and> list_all2 R (take (length k) ys) k"
  then have "prefix (take (length k) ys) ys \<and> list_all2 R (take (length k) ys) k"
    by (simp add: take_is_prefix)
  then show "\<exists>s. prefix s ys \<and> list_all2 R s k" by blast
qed

lemma ci_includes_iff: "ci_includes t k \<longleftrightarrow> ci_substring k t"
proof (induction t)
  case Nil
  show ?case by (auto simp: ci_substring_def)
next
  case (Cons x xs)
  have "ci_substring k (x # xs) \<longleftrightarrow>
        (\<exists>s. prefix s (x # xs) \<and> list_all2 ci_eq_char s k) \<or> ci_substring k xs"
    by (auto simp: ci_substring_def sublist_Cons_right)
  then show ?case
    unfolding prefix_all2_take using Cons by simp
qed

lemma rule_matches_code [code]:
  "rule_matches tags r \<longleftrightarrow> list_ex (\<lambda>k. list_ex (\<lambda>t. ci_includes t k) tags) (inc r)"
  by (auto simp: rule_matches_def list_ex_iff ci_includes_iff)










lemma upper_matches_code [code]:
  "upper_matches tags r \<longleftrightarrow>
     list_ex (\<lambda>k. list_ex (\<lambda>t. str_includes (toUpperCase t) (code_units k)) tags) (inc r)"
  by (auto simp: upper_matches_def list_ex_iff str_includes_sublist)




section \<open>Properties of the record parser\<close>

lemma map_filter_Some:
  "map Some (List.map_filter f xs) = filter (\<lambda>r. r \<noteq> None) (map f xs)"
  by (induction xs) (auto simp: List.map_filter_simps split: option.splits)

lemma split_on_nonempty: "split_on c s \<noteq> []"
  by (induction s) (auto split: list.splits)

text \<open>
  Claim C1, as the code has it. A geo token is dropped exactly when its \<open>#\<close>-field 0 is
  missing or empty, or \<open>parseFloat\<close> of its field 4 or of its field 5 (each read as
  \<open>0\<close> when missing or empty) is \<open>NaN\<close>. A kept token gives the name from field 0, the
  country from field 2, and the two numbers from fields 4 and 5, neither of them \<open>NaN\<close>.
  Only the token is dropped: the locations of a row are its kept tokens, in order.
\<close>

theorem parse_token_kept:
  "(parse_token tok = None \<longleftrightarrow>
      field_or (split_on CHR ''#'' tok) 0 '''' = '''' \<or>
      parseFloat (field_or (split_on CHR ''#'' tok) 4 ''0'') = NaN \<or>
      parseFloat (field_or (split_on CHR ''#'' tok) 5 ''0'') = NaN)
   \<and> (\<forall>g. parse_token tok = Some g \<longrightarrow>
          name g = split_on CHR ''#'' tok ! 0 \<and> name g \<noteq> '''' \<and>
          country g = field_or (split_on CHR ''#'' tok) 2 '''' \<and>
          lat g = parseFloat (field_or (split_on CHR ''#'' tok) 4 ''0'') \<and> lat g \<noteq> NaN \<and>
          lon g = parseFloat (field_or (split_on CHR ''#'' tok) 5 ''0'') \<and> lon g \<noteq> NaN)
   \<and> map Some (locations (parse_row cols)) =
       filter (\<lambda>r. r \<noteq> None)
         (map parse_token (filter (\<lambda>s. s \<noteq> []) (split_on CHR '';'' (field_or cols 8 ''''))))"
proof (intro conjI)
  show "map Some (locations (parse_row cols)) =
       filter (\<lambda>r. r \<noteq> None)
         (map parse_token (filter (\<lambda>s. s \<noteq> []) (split_on CHR '';'' (field_or cols 8 ''''))))"
    by (simp add: parse_row_def Let_def map_filter_Some)
qed (auto simp: parse_token_def Let_def field_or_def split: if_splits)

theorem parse_token_kept_witness:
  "parse_token ''Kyiv#1#UA#1#50.5#30.5''
     = Some \<lparr>name = ''Kyiv'', lat = Fin (101 / 2), lon = Fin (61 / 2), country = ''UA''\<rparr>
   \<and> name \<lparr>name = ''Kyiv'', lat = Fin (101 / 2), lon = Fin (61 / 2), country = ''UA''\<rparr>
       = split_on CHR ''#'' ''Kyiv#1#UA#1#50.5#30.5'' ! 0
   \<and> country \<lparr>name = ''Kyiv'', lat = Fin (101 / 2), lon = Fin (61 / 2), country = ''UA''\<rparr>
       = field_or (split_on CHR ''#'' ''Kyiv#1#UA#1#50.5#30.5'') 2 ''''
   \<and> lat \<lparr>name = ''Kyiv'', lat = Fin (101 / 2), lon = Fin (61 / 2), country = ''UA''\<rparr>
       = parseFloat (field_or (split_on CHR ''#'' ''Kyiv#1#UA#1#50.5#30.5'') 4 ''0'')
   \<and> lon \<lparr>name = ''Kyiv'', lat = Fin (101 / 2), lon = Fin (61 / 2), country = ''UA''\<rparr>
       = parseFloat (field_or (split_on CHR ''#'' ''Kyiv#1#UA#1#50.5#30.5'') 5 ''0'')
   \<and> field_or (split_on CHR ''#'' ''Kyiv#1#UA#1#50.5#30.5'') 4 ''0'' = ''50.5''
   \<and> field_or (split_on CHR ''#'' ''Kyiv#1#UA#1#50.5#30.5'') 5 ''0'' = ''30.5''"
proof -
  have a: "parse_token ''Kyiv#1#UA#1#50.5#30.5'' =
           Some \<lparr>name = ''Kyiv'', lat = Fin (101 / 2), lon = Fin (61 / 2), country = ''UA''\<rparr>"
    by code_simp
  have b: "field_or (split_on CHR ''#'' ''Kyiv#1#UA#1#50.5#30.5'') 4 ''0'' = ''50.5''"
    by code_simp
  have c: "field_or (split_on CHR ''#'' ''Kyiv#1#UA#1#50.5#30.5'') 5 ''0'' = ''30.5''"
    by code_simp
  from parse_token_kept [of "''Kyiv#1#UA#1#50.5#30.5''"] a
  have "name \<lparr>name = ''Kyiv'', lat = Fin (101 / 2), lon = Fin (61 / 2), country = ''UA''\<rparr>
          = split_on CHR ''#'' ''Kyiv#1#UA#1#50.5#30.5'' ! 0
        \<and> country \<lparr>name = ''Kyiv'', lat = Fin (101 / 2), lon = Fin (61 / 2), country = ''UA''\<rparr>
          = field_or (split_on CHR ''#'' ''Kyiv#1#UA#1#50.5#30.5'') 2 ''''
        \<and> lat \<lparr>name = ''Kyiv'', lat = Fin (101 / 2), lon = Fin (61 / 2), country = ''UA''\<rparr>
          = parseFloat (field_or (split_on CHR ''#'' ''Kyiv#1#UA#1#50.5#30.5'') 4 ''0'')
        \<and> lon \<lparr>name = ''Kyiv'', lat = Fin (101 / 2), lon = Fin (61 / 2), country = ''UA''\<rparr>
          = parseFloat (field_or (split_on CHR ''#'' ''Kyiv#1#UA#1#50.5#30.5'') 5 ''0'')"
    by blast
  with a b c show ?thesis by blast
qed

text \<open>
  The claim as stated fails: a token whose latitude field reads \<open>Infinity\<close> is kept,
  with a latitude that is not finite.
\<close>

theorem parse_token_infinite_kept:
  "parse_token ''Kyiv#1#UA#1#Infinity#0'' =
     Some \<lparr>name = ''Kyiv'', lat = PosInf, lon = Fin 0, country = ''UA''\<rparr>
   \<and> \<not> is_finite (lat \<lparr>name = ''Kyiv'', lat = PosInf, lon = Fin 0, country = ''UA''\<rparr>)"
  by code_simp

lemma join_push: "join c ((x # w) # ws) = x # join c (w # ws)"
  by (cases ws) simp_all

lemma join_split_on: "join c (split_on c s) = s"
proof (induction s)
  case Nil
  show ?case by simp
next
  case (Cons x s)
  obtain w ws where sp: "split_on c s = w # ws"
    using split_on_nonempty[of c s] by (cases "split_on c s") auto
  show ?case
  proof (cases "x = c")
    case True
    then show ?thesis using Cons sp by simp
  next
    case False
    then show ?thesis using Cons sp by (simp add: join_push)
  qed
qed

lemma split_on_no_separator: "w \<in> set (split_on c s) \<Longrightarrow> c \<notin> set w"
proof (induction s arbitrary: w)
  case Nil
  then show ?case by simp
next
  case (Cons x s)
  obtain v vs where sp: "split_on c s = v # vs"
    using split_on_nonempty[of c s] by (cases "split_on c s") auto
  show ?case
  proof (cases "x = c")
    case True
    with Cons.prems have "w = [] \<or> w \<in> set (split_on c s)" by auto
    then show ?thesis using Cons.IH by auto
  next
    case False
    with Cons.prems sp have "w = x # v \<or> w \<in> set vs" by auto
    then show ?thesis
    proof
      assume "w = x # v"
      moreover have "c \<notin> set v" using Cons.IH[of v] sp by simp
      ultimately show ?thesis using False by auto
    next
      assume "w \<in> set vs"
      then show ?thesis using Cons.IH[of w] sp by simp
    qed
  qed
qed

lemma join_feed_rows:
  "join (char_of (10::nat)) (map (join (char_of (9::nat))) (feed_rows data)) = trim data"
  by (simp add: feed_rows_def comp_def join_split_on)

lemma feed_rows_columns:
  "cols \<in> set (feed_rows data) \<Longrightarrow> col \<in> set cols \<Longrightarrow>
   char_of (10::nat) \<notin> set col \<and> char_of (9::nat) \<notin> set col"
proof -
  assume "cols \<in> set (feed_rows data)" and col: "col \<in> set cols"
  then obtain line where line: "line \<in> set (split_on (char_of (10::nat)) (trim data))"
    and cols: "cols = split_on (char_of (9::nat)) line"
    by (auto simp: feed_rows_def)
  have "char_of (10::nat) \<notin> set line" using line by (rule split_on_no_separator)
  moreover have "set col \<subseteq> set line"
  proof -
    have "set (join (char_of (9::nat)) ws) \<supseteq> set w" if "w \<in> set ws" for w ws
      using that by (induction ws rule: join.induct[of _ "char_of (9::nat)"]) auto
    from this[OF col] show ?thesis unfolding cols join_split_on .
  qed
  moreover have "char_of (9::nat) \<notin> set col"
    using col unfolding cols by (rule split_on_no_separator)
  ultimately show ?thesis by auto
qed

lemma field_or_index: "field_or p i [] = (if i < length p then p ! i else [])"
  by (simp add: field_or_def)


text \<open>
  Claim C9. For every feed text the parser returns facts and no error: each of its
  operations is defined on every string, and a missing column reads as the empty
  string before anything is done with it. The rows are the lines of the trimmed text,
  at least one, each cut at the tabs; joining the columns by tabs and the rows by line
  feeds gives the trimmed text back. Each row gives exactly one fact, whatever the
  number of its columns: its themes are the non-empty pieces of its fifth column cut at
  the semicolons, its locations the kept tokens among the non-empty pieces of its ninth
  column, and a column that is missing gives none.
\<close>

theorem parse_feed_total:
  "fetchGKGLastHour (Inr data) = Inr (parse_feed data)
   \<and> parse_feed data \<noteq> []
   \<and> length (parse_feed data) = length (split_on (char_of (10::nat)) (trim data))
   \<and> (\<forall>i < length (feed_rows data). parse_feed data ! i = parse_row (feed_rows data ! i))
   \<and> (length cols \<le> 4 \<longrightarrow> parse_row cols = \<lparr>themes = [], locations = []\<rparr>)
   \<and> (length cols \<le> 8 \<longrightarrow> locations (parse_row cols) = [])
   \<and> parse_feed data = map parse_row (feed_rows data)
   \<and> join (char_of (10::nat)) (map (join (char_of (9::nat))) (feed_rows data)) = trim data
   \<and> (\<forall>r \<in> set (feed_rows data). \<forall>col \<in> set r.
         char_of (10::nat) \<notin> set col \<and> char_of (9::nat) \<notin> set col)
   \<and> join c (split_on c s) = s
   \<and> (\<forall>w \<in> set (split_on c s). c \<notin> set w)
   \<and> themes (parse_row cols) =
       filter (\<lambda>s. s \<noteq> []) (split_on CHR '';'' (if 4 < length cols then cols ! 4 else []))
   \<and> map Some (locations (parse_row cols)) =
       filter (\<lambda>r. r \<noteq> None)
         (map parse_token
            (filter (\<lambda>s. s \<noteq> [])
               (split_on CHR '';'' (if 8 < length cols then cols ! 8 else []))))
   \<and> parse_token tok =
       (let p = split_on CHR ''#'' tok;
            f = (\<lambda>i d. if i < length p \<and> p ! i \<noteq> [] then p ! i else d)
        in if f 0 [] = [] \<or> parseFloat (f 4 ''0'') = NaN \<or> parseFloat (f 5 ''0'') = NaN
           then None
           else Some \<lparr>name = f 0 [], lat = parseFloat (f 4 ''0''),
                      lon = parseFloat (f 5 ''0''), country = f 2 []\<rparr>)"
proof (intro conjI)
  show "fetchGKGLastHour (Inr data) = Inr (parse_feed data)"
    by (simp add: fetchGKGLastHour_def)
  show "parse_feed data \<noteq> []"
    by (simp add: parse_feed_def feed_rows_def split_on_nonempty)
  show "length (parse_feed data) = length (split_on (char_of (10::nat)) (trim data))"
    by (simp add: parse_feed_def feed_rows_def)
  show "\<forall>i < length (feed_rows data). parse_feed data ! i = parse_row (feed_rows data ! i)"
    by (simp add: parse_feed_def)
  show "length cols \<le> 4 \<longrightarrow> parse_row cols = \<lparr>themes = [], locations = []\<rparr>"
    by (simp add: parse_row_def field_or_def List.map_filter_simps)
  show "length cols \<le> 8 \<longrightarrow> locations (parse_row cols) = []"
    by (simp add: parse_row_def field_or_def List.map_filter_simps)
  show "parse_feed data = map parse_row (feed_rows data)"
    by (simp add: parse_feed_def)
  show "join (char_of (10::nat)) (map (join (char_of (9::nat))) (feed_rows data)) = trim data"
    by (rule join_feed_rows)
  show "\<forall>r \<in> set (feed_rows data). \<forall>col \<in> set r.
         char_of (10::nat) \<notin> set col \<and> char_of (9::nat) \<notin> set col"
    using feed_rows_columns by blast
  show "join c (split_on c s) = s"
    by (rule join_split_on)
  show "\<forall>w \<in> set (split_on c s). c \<notin> set w"
    using split_on_no_separator by blast
  show "themes (parse_row cols) =
       filter (\<lambda>s. s \<noteq> []) (split_on CHR '';'' (if 4 < length cols then cols ! 4 else []))"
    by (simp add: parse_row_def Let_def field_or_index)
  show "map Some (locations (parse_row cols)) =
       filter (\<lambda>r. r \<noteq> None)
         (map parse_token
            (filter (\<lambda>s. s \<noteq> [])
               (split_on CHR '';'' (if 8 < length cols then cols ! 8 else []))))"
    by (simp add: parse_row_def Let_def field_or_index map_filter_Some)
  show "parse_token tok =
       (let p = split_on CHR ''#'' tok;
            f = (\<lambda>i d. if i < length p \<and> p ! i \<noteq> [] then p ! i else d)
        in if f 0 [] = [] \<or> parseFloat (f 4 ''0'') = NaN \<or> parseFloat (f 5 ''0'') = NaN
           then None
           else Some \<lparr>name = f 0 [], lat = parseFloat (f 4 ''0''),
                      lon = parseFloat (f 5 ''0''), country = f 2 []\<rparr>)"
    by (simp add: parse_token_def Let_def field_or_def)
qed

theorem parse_feed_total_witness:
  "feed_rows six_column_feed = [six_columns]
   \<and> length six_columns \<le> 8
   \<and> themes (parse_row six_columns) = [''WAR'', ''CRIME'']
   \<and> locations (parse_row six_columns) = []
   \<and> parse_feed six_column_feed = [parse_row six_columns]
   \<and> fetchGKGLastHour (Inr six_column_feed) = Inr [parse_row six_columns]"
proof -
  have a: "feed_rows six_column_feed = [six_columns]" by code_simp
  have b: "length six_columns \<le> 8" by (simp add: six_columns_def)
  have c: "filter (\<lambda>s. s \<noteq> [])
             (split_on CHR '';'' (if 4 < length six_columns then six_columns ! 4 else []))
           = [''WAR'', ''CRIME'']"
    by code_simp
  note inst = parse_feed_total [of six_column_feed six_columns]
  from inst have "themes (parse_row six_columns) =
       filter (\<lambda>s. s \<noteq> [])
         (split_on CHR '';'' (if 4 < length six_columns then six_columns ! 4 else []))"
    by blast
  then have d: "themes (parse_row six_columns) = [''WAR'', ''CRIME'']"
    unfolding c .
  from inst b have e: "locations (parse_row six_columns) = []" by blast
  from inst have "parse_feed six_column_feed = map parse_row (feed_rows six_column_feed)"
    by blast
  then have f: "parse_feed six_column_feed = [parse_row six_columns]"
    unfolding a by simp
  from inst have "fetchGKGLastHour (Inr six_column_feed) = Inr (parse_feed six_column_feed)"
    by blast
  then have g: "fetchGKGLastHour (Inr six_column_feed) = Inr [parse_row six_columns]"
    unfolding f .
  show ?thesis by (intro conjI a b d e f g)
qed

section \<open>Properties of the ingest job\<close>

lemma update_fresh: "k \<notin> fst ` set al \<Longrightarrow> AList.update k v al = al @ [(k, v)]"
  by (induction al) auto

lemma update_append_last:
  "k \<notin> fst ` set al \<Longrightarrow> AList.update k v (al @ [(k, w)]) = al @ [(k, v)]"
  by (induction al) auto

lemma map_of_append_last: "k \<notin> fst ` set al \<Longrightarrow> map_of (al @ [(k, v)]) k = Some v"
  by (induction al) auto

lemma enrich_places_append:
  "k \<notin> fst ` set al \<Longrightarrow>
   enrich_places cfg netc k i ps (al @ [(k, es)], pl) =
     (al @ [(k, es @ map (\<lambda>pc. make_entry (fst pc) (snd pc)) (kept_places cfg netc i ps))],
      pl @ map (\<lambda>pc. make_enriched k (fst pc) (snd pc)) (kept_places cfg netc i ps))"
proof (induction ps arbitrary: i es pl)
  case Nil
  then show ?case by (simp add: kept_places_def)
next
  case (Cons p ps)
  show ?case
  proof (cases "findCamsForPlace cfg (netc i) p = []")
    case True
    then show ?thesis using Cons by (simp add: kept_places_def)
  next
    case False
    then show ?thesis
      using Cons.IH[OF Cons.prems] Cons.prems
      by (simp add: kept_places_def Let_def update_append_last map_of_append_last
            del: map_of_append)
  qed
qed

lemma enrich_all_append:
  "distinct (map fst rk) \<Longrightarrow> fst ` set rk \<inter> fst ` set al = {} \<Longrightarrow>
   enrich_all cfg net rk (al, pl) =
     (al @ map (\<lambda>e. (fst e, map (\<lambda>pc. make_entry (fst pc) (snd pc))
                               (kept_places cfg (net (fst e)) 0 (snd e)))) rk,
      pl @ concat (map (\<lambda>e. map (\<lambda>pc. make_enriched (fst e) (fst pc) (snd pc))
                               (kept_places cfg (net (fst e)) 0 (snd e))) rk))"
proof (induction rk arbitrary: al pl)
  case Nil
  then show ?case by simp
next
  case (Cons e rk)
  have fresh: "fst e \<notin> fst ` set al" using Cons.prems by auto
  have d: "distinct (map fst rk)" using Cons.prems by simp
  have disj: "fst ` set rk \<inter> fst ` set (al @ [(fst e, x)]) = {}" for x
    using Cons.prems by auto
  show ?case
    by (simp add: update_fresh[OF fresh] enrich_places_append[OF fresh] Cons.IH[OF d disj])
qed

lemma distinct_push_ranked:
  "distinct (map fst cs) \<Longrightarrow> distinct (map fst (foldl (push_ranked p) cs es))"
  by (induction es arbitrary: cs) (auto simp: push_ranked_def distinct_update)

lemma distinct_group_fold:
  "distinct (map fst cs) \<Longrightarrow>
   distinct (map fst (foldl (\<lambda>cats p. foldl (push_ranked p) cats (counts p)) cs ps))"
  by (induction ps arbitrary: cs) (auto simp: distinct_push_ranked)

lemma distinct_rankPlaces: "distinct (map fst (rankPlaces cfg ps))"
proof -
  have "map fst (rankPlaces cfg ps) = map fst (group_places ps)"
    by (simp add: rankPlaces_def case_prod_unfold comp_def)
  then show ?thesis by (simp add: group_places_def distinct_group_fold)
qed

lemma kept_places_none:
  "(\<forall>i < length l. findCamsForPlace cfg (netc i) (l ! i) = []) \<Longrightarrow> kept_places cfg netc 0 l = []"
  by (auto simp: kept_places_def filter_empty_conv in_set_enumerate_eq)

lemma boot_snapshot:
  "boot cfg (Inr data) net now STATE =
     \<lparr>updatedAt = Some now,
      categories = map (\<lambda>e. (fst e, map (\<lambda>pc. make_entry (fst pc) (snd pc))
                                     (kept_places cfg (net (fst e)) 0 (snd e))))
                     (ranked_of cfg data),
      places = concat (map (\<lambda>e. map (\<lambda>pc. make_enriched (fst e) (fst pc) (snd pc))
                                     (kept_places cfg (net (fst e)) 0 (snd e)))
                        (ranked_of cfg data))\<rparr>"
  by (simp add: boot_def ingestOnce_def fetchGKGLastHour_def Let_def ranked_of_def
        enrich_all_append[OF distinct_rankPlaces])

text \<open>
  Claim C3. When the feed request fails, \<open>ingestOnce\<close> throws that error before it
  assigns \<open>STATE\<close>, and the caller only logs it: the published snapshot is the one from
  before, with its \<open>updatedAt\<close>, \<open>categories\<close> and \<open>places\<close>.
\<close>

theorem fetch_failure_keeps_snapshot:
  "ingestOnce cfg (Inl e) net now STATE = (Some e, STATE)
   \<and> boot cfg (Inl e) net now STATE = STATE
   \<and> updatedAt (boot cfg (Inl e) net now STATE) = updatedAt STATE
   \<and> categories (boot cfg (Inl e) net now STATE) = categories STATE
   \<and> places (boot cfg (Inl e) net now STATE) = places STATE"
  by (simp add: boot_def ingestOnce_def fetchGKGLastHour_def)

text \<open>
  Claim C10. The published \<open>categories\<close> has one key for every category of the ranked
  places, in their order, created before any camera lookup; the value of a key holds
  the places of that category whose camera list is not empty, and \<open>places\<close> holds the
  same places. So a category all of whose ranked places have no camera is present with
  an empty list, and none of its places is in \<open>places\<close>.
\<close>

theorem categories_key_without_cameras:
  "map fst (categories (boot cfg (Inr data) net now STATE)) = map fst (ranked_of cfg data)
   \<and> categories (boot cfg (Inr data) net now STATE) =
       map (\<lambda>e. (fst e, map (\<lambda>pc. make_entry (fst pc) (snd pc))
                            (kept_places cfg (net (fst e)) 0 (snd e))))
         (ranked_of cfg data)
   \<and> places (boot cfg (Inr data) net now STATE) =
       concat (map (\<lambda>e. map (\<lambda>pc. make_enriched (fst e) (fst pc) (snd pc))
                            (kept_places cfg (net (fst e)) 0 (snd e)))
                 (ranked_of cfg data))
   \<and> (\<forall>c l. (c, l) \<in> set (ranked_of cfg data) \<longrightarrow>
          (\<forall>i < length l. findCamsForPlace cfg (net c i) (l ! i) = []) \<longrightarrow>
          map_of (categories (boot cfg (Inr data) net now STATE)) c = Some []
          \<and> (\<forall>x \<in> set (places (boot cfg (Inr data) net now STATE)). category x \<noteq> c))"
proof (intro conjI allI impI)
  let ?S = "boot cfg (Inr data) net now STATE"
  let ?rk = "ranked_of cfg data"
  have d: "distinct (map fst ?rk)" by (simp add: ranked_of_def distinct_rankPlaces)
  show "map fst (categories ?S) = map fst ?rk"
    by (simp add: boot_snapshot comp_def)
  show "categories ?S =
       map (\<lambda>e. (fst e, map (\<lambda>pc. make_entry (fst pc) (snd pc))
                            (kept_places cfg (net (fst e)) 0 (snd e)))) ?rk"
    by (simp add: boot_snapshot)
  show "places ?S =
       concat (map (\<lambda>e. map (\<lambda>pc. make_enriched (fst e) (fst pc) (snd pc))
                            (kept_places cfg (net (fst e)) 0 (snd e))) ?rk)"
    by (simp add: boot_snapshot)
  fix c l
  assume in_rk: "(c, l) \<in> set ?rk"
    and none: "\<forall>i < length l. findCamsForPlace cfg (net c i) (l ! i) = []"
  have k: "kept_places cfg (net c) 0 l = []" using none by (rule kept_places_none)
  have "(c, []) \<in> set (categories ?S)"
    using in_rk k by (force simp: boot_snapshot)
  moreover have "distinct (map fst (categories ?S))"
    using d by (simp add: boot_snapshot comp_def)
  ultimately show "map_of (categories ?S) c = Some []" by simp
  show "\<forall>x \<in> set (places ?S). category x \<noteq> c"
  proof
    fix x assume "x \<in> set (places ?S)"
    then obtain e pc where e: "e \<in> set ?rk" "pc \<in> set (kept_places cfg (net (fst e)) 0 (snd e))"
      "x = make_enriched (fst e) (fst pc) (snd pc)"
      by (auto simp: boot_snapshot)
    have "fst e \<noteq> c"
    proof
      assume "fst e = c"
      with d in_rk e(1) have "snd e = l"
        by (metis eq_key_imp_eq_value prod.collapse)
      with e(2) k \<open>fst e = c\<close> show False by simp
    qed
    then show "category x \<noteq> c" by (simp add: e(3) make_enriched_def)
  qed
qed

theorem categories_key_without_cameras_witness:
  "(''war'', [\<lparr>name = ''Kyiv'', lat = Fin 0, lon = Fin 0, country = ''UA'',
              counts = [(''war'', 1)], score = 1\<rparr>]) \<in> set (ranked_of keyed_config sample_feed)
   \<and> findCamsForPlace keyed_config failing_providers
        \<lparr>name = ''Kyiv'', lat = Fin 0, lon = Fin 0, country = ''UA'',
         counts = [(''war'', 1)], score = 1\<rparr> = []
   \<and> map_of (categories (boot keyed_config (Inr sample_feed) (\<lambda>c i. failing_providers)
                 ''2026-01-01T00:00:00.000Z'' initial_STATE)) ''war'' = Some []
   \<and> places (boot keyed_config (Inr sample_feed) (\<lambda>c i. failing_providers)
                 ''2026-01-01T00:00:00.000Z'' initial_STATE) = []"
proof -
  let ?p = "\<lparr>name = ''Kyiv'', lat = Fin 0, lon = Fin 0, country = ''UA'',
             counts = [(''war'', 1::nat)], score = 1::nat\<rparr>"
  have r: "ranked_of keyed_config sample_feed = [(''war'', [?p])]"
    by code_simp
  have f: "findCamsForPlace keyed_config failing_providers ?p = []"
    by code_simp
  from categories_key_without_cameras
         [of keyed_config sample_feed "\<lambda>c i. failing_providers"
             "''2026-01-01T00:00:00.000Z''" initial_STATE]
  show ?thesis using r f
    by (simp add: kept_places_def)
qed


section \<open>Properties of the aggregation\<close>

lemma sum_update:
  "sum_list (map (\<lambda>kb. g (snd kb)) (AList.update k v al))
     + (case map_of al k of None \<Rightarrow> 0 | Some b \<Rightarrow> g b)
   = sum_list (map (\<lambda>kb. g (snd kb)) al) + (g v :: nat)"
  by (induction al) auto

lemma count_of_bump:
  "count_of (b\<lparr>counts := bump c (counts b)\<rparr>) c' = count_of b c' + (if c' = c then 1 else 0)"
  by (simp add: count_of_def bump_def update_conv' split: option.splits)

lemma total_add_mention:
  "total_count (add_mention c bs loc) c' = total_count bs c' + (if c' = c then 1 else 0)"
proof -
  define curr where
    "curr = (case map_of bs (bucket_id loc) of
               Some b \<Rightarrow> b
             | None \<Rightarrow> \<lparr>name = name loc, lat = lat loc, lon = lon loc,
                        country = country loc, counts = []\<rparr>)"
  have old: "(case map_of bs (bucket_id loc) of None \<Rightarrow> 0 | Some b \<Rightarrow> count_of b c')
             = count_of curr c'"
    by (simp add: curr_def count_of_def split: option.splits)
  have step: "add_mention c bs loc
              = AList.update (bucket_id loc) (curr\<lparr>counts := bump c (counts curr)\<rparr>) bs"
    by (simp add: add_mention_def Let_def curr_def)
  from sum_update[of "\<lambda>b. count_of b c'" "bucket_id loc"
                     "curr\<lparr>counts := bump c (counts curr)\<rparr>" bs]
  have "total_count (add_mention c bs loc) c' + count_of curr c'
        = total_count bs c' + (count_of curr c' + (if c' = c then 1 else 0))"
    unfolding step total_count_def old count_of_bump .
  then show ?thesis by simp
qed

lemma total_fold_mentions:
  "total_count (foldl (add_mention c) bs locs) c'
     = total_count bs c' + (if c' = c then length locs else 0)"
  by (induction locs arbitrary: bs) (auto simp: total_add_mention)

lemma total_add_row:
  "total_count (add_row bs row) c'
     = total_count bs c' + (if mapThemesToCategory (themes row) = Some c' then length (locations row) else 0)"
  by (auto simp: add_row_def total_fold_mentions split: option.splits)

lemma total_fold_rows:
  "total_count (foldl add_row bs gkg) c = total_count bs c + length (mention_pairs gkg c)"
  by (induction gkg arbitrary: bs) (auto simp: total_add_row mention_pairs_def)

lemma total_aggregate: "total_count (aggregate gkg) c = length (mention_pairs gkg c)"
  unfolding aggregate_def total_fold_rows by (simp add: total_count_def)

lemma bucket_count_add_mention:
  "bucket_count (add_mention c bs loc) k c'
     = bucket_count bs k c' + (if bucket_id loc = k \<and> c' = c then 1 else 0)"
proof -
  define curr where
    "curr = (case map_of bs (bucket_id loc) of
               Some b \<Rightarrow> b
             | None \<Rightarrow> \<lparr>name = name loc, lat = lat loc, lon = lon loc,
                        country = country loc, counts = []\<rparr>)"
  have old: "bucket_count bs (bucket_id loc) c' = count_of curr c'"
    by (simp add: bucket_count_def curr_def count_of_def split: option.splits)
  have step: "add_mention c bs loc
              = AList.update (bucket_id loc) (curr\<lparr>counts := bump c (counts curr)\<rparr>) bs"
    by (simp add: add_mention_def Let_def curr_def)
  show ?thesis
  proof (cases "bucket_id loc = k")
    case True
    then show ?thesis
      using old unfolding step by (simp add: bucket_count_def update_conv' count_of_bump)
  next
    case False
    then show ?thesis unfolding step by (simp add: bucket_count_def update_conv')
  qed
qed

lemma bucket_count_fold:
  "\<forall>loc \<in> set locs. bucket_id loc = k \<Longrightarrow>
   bucket_count (foldl (add_mention c) bs locs) k c = bucket_count bs k c + length locs"
  by (induction locs arbitrary: bs) (auto simp: bucket_count_add_mention)

text \<open>
  Claim C5. After aggregation, the sum of \<open>counts[cat]\<close> over all buckets is the number
  of (fact, mention) pairs whose fact classifies to \<open>cat\<close>; and a fact of category
  \<open>cat\<close> whose mentions all have the key \<open>k\<close> adds the number of its mentions to
  \<open>counts[cat]\<close> of the bucket under \<open>k\<close>.
\<close>

theorem aggregate_count_sum:
  "total_count (aggregate gkg) c = length (mention_pairs gkg c)
   \<and> (mapThemesToCategory (themes row) = Some c \<longrightarrow>
        (\<forall>loc \<in> set (locations row). bucket_id loc = k) \<longrightarrow>
        bucket_count (add_row bs row) k c = bucket_count bs k c + length (locations row))"
  by (simp add: total_aggregate add_row_def bucket_count_fold)

theorem aggregate_count_sum_witness:
  "mapThemesToCategory (themes war_row) = Some ''war''
   \<and> map bucket_id (locations war_row) = [''50.500,30.500:Kyiv'', ''50.500,30.500:Kyiv'']
   \<and> bucket_count (add_row [] war_row) ''50.500,30.500:Kyiv'' ''war'' = 2
   \<and> total_count (aggregate [war_row]) ''war'' = 2"
proof -
  have a: "mapThemesToCategory (themes war_row) = Some ''war''" by code_simp
  have keys: "map bucket_id (locations war_row)
              = [''50.500,30.500:Kyiv'', ''50.500,30.500:Kyiv'']"
    by code_simp
  have b: "\<forall>loc \<in> set (locations war_row). bucket_id loc = ''50.500,30.500:Kyiv''"
    by code_simp
  have c: "length (locations war_row) = 2" by (simp add: war_row_def)
  have d: "length (mention_pairs [war_row] ''war'') = 2"
    by (simp add: mention_pairs_def a c)
  have e: "bucket_count [] ''50.500,30.500:Kyiv'' ''war'' = 0"
    by (simp add: bucket_count_def)
  from aggregate_count_sum [of "[war_row]" "''war''" war_row "''50.500,30.500:Kyiv''" "[]"]
  have "total_count (aggregate [war_row]) ''war'' = length (mention_pairs [war_row] ''war'')"
    and "bucket_count (add_row [] war_row) ''50.500,30.500:Kyiv'' ''war''
         = bucket_count [] ''50.500,30.500:Kyiv'' ''war'' + length (locations war_row)"
    using a b by blast+
  then have f: "bucket_count (add_row [] war_row) ''50.500,30.500:Kyiv'' ''war'' = 2"
    and g: "total_count (aggregate [war_row]) ''war'' = 2"
    unfolding c d e by simp_all
  show ?thesis by (intro conjI a keys f g)
qed


lemma digit_char_no_delimiter:
  assumes "d < 10"
  shows "digit_char d \<noteq> CHR '',''" and "digit_char d \<noteq> CHR '':''"
proof -
  have e: "of_char (digit_char d) = (48 + d :: nat)"
    using assms by (simp add: digit_char_def)
  show "digit_char d \<noteq> CHR '',''"
  proof
    assume "digit_char d = CHR '',''"
    then have "of_char (digit_char d) = (of_char CHR '','' :: nat)" by simp
    with e have "48 + d = (44::nat)" by simp
    then show False by arith
  qed
  show "digit_char d \<noteq> CHR '':''"
  proof
    assume "digit_char d = CHR '':''"
    then have "of_char (digit_char d) = (of_char CHR '':'' :: nat)" by simp
    with e have "48 + d = (58::nat)" by simp
    with assms show False by arith
  qed
qed

lemma no_delimiter_append: "no_delimiter (a @ b) \<longleftrightarrow> no_delimiter a \<and> no_delimiter b"
  by (auto simp: no_delimiter_def)

lemma no_delimiter_digit: "d < 10 \<Longrightarrow> no_delimiter [digit_char d]"
  using digit_char_no_delimiter[of d] by (simp add: no_delimiter_def)

lemma digits_of_no_delimiter: "no_delimiter (digits_of n)"
proof (induction n rule: digits_of.induct)
  case (1 n)
  show ?case
  proof (cases "n < 10")
    case True
    then have "digits_of n = [digit_char n]" by (subst digits_of.simps) simp
    with True show ?thesis by (simp add: no_delimiter_digit)
  next
    case False
    then have "digits_of n = digits_of (n div 10) @ [digit_char (n mod 10)]"
      by (subst digits_of.simps) simp
    moreover have "no_delimiter [digit_char (n mod 10)]"
      by (rule no_delimiter_digit) simp
    ultimately show ?thesis using 1[OF False] by (simp add: no_delimiter_append)
  qed
qed

lemma digits_of_nonempty: "digits_of n \<noteq> []"
proof (cases "n < 10")
  case True
  then have "digits_of n = [digit_char n]" by (subst digits_of.simps) simp
  then show ?thesis by simp
next
  case False
  then have "digits_of n = digits_of (n div 10) @ [digit_char (n mod 10)]"
    by (subst digits_of.simps) simp
  then show ?thesis by simp
qed

lemma exp_format_no_delimiter:
  assumes "no_delimiter ds" "ds \<noteq> []"
  shows "no_delimiter (exp_format ds e)"
proof -
  have "no_delimiter (hd ds # CHR ''.'' # tl ds)"
    using assms by (cases ds) (auto simp: no_delimiter_def)
  moreover have "no_delimiter ''e+''" by (simp add: no_delimiter_def)
  ultimately show ?thesis
    using assms(1) digits_of_no_delimiter[of e]
    unfolding exp_format_def by (simp only: no_delimiter_append split: if_split) simp
qed

lemma big_toString_no_delimiter: "no_delimiter (big_toString a)"
proof -
  have one: "no_delimiter ''1''" "''1'' \<noteq> []" by (simp_all add: no_delimiter_def)
  show ?thesis
    unfolding big_toString_def Let_def
    by (simp only: split: if_split)
       (intro conjI impI exp_format_no_delimiter one digits_of_no_delimiter digits_of_nonempty)
qed

lemma fixed_format_no_delimiter:
  assumes "no_delimiter m"
  shows "no_delimiter (fixed_format m)"
proof -
  define m' where "m' = (if length m \<le> 3 then replicate (4 - length m) CHR ''0'' @ m else m)"
  have "no_delimiter m'"
    using assms by (auto simp: m'_def no_delimiter_def)
  then have "no_delimiter (take k m' @ ''.'' @ drop k m')" for k
    by (auto simp: no_delimiter_def dest: in_set_takeD in_set_dropD)
  then show ?thesis by (simp add: fixed_format_def Let_def m'_def[symmetric])
qed

lemma toFixed3_no_delimiter: "no_delimiter (toFixed3 x)"
proof (cases x)
  case (Fin q)
  have s: "no_delimiter (if q < 0 then ''-'' else '''')" by (simp add: no_delimiter_def)
  have "no_delimiter (if 10 ^ 21 \<le> \<bar>q\<bar> then big_toString \<bar>q\<bar>
             else fixed_format (digits_of (nat \<lfloor>\<bar>q\<bar> * 1000 + 1 / 2\<rfloor>)))"
    by (simp only: split: if_split)
       (intro conjI impI big_toString_no_delimiter fixed_format_no_delimiter digits_of_no_delimiter)
  with s show ?thesis
    unfolding Fin toFixed3_def by (simp only: jsnum.case no_delimiter_append)
qed (simp_all add: toFixed3_def no_delimiter_def)

lemma split_at_delimiter:
  "c \<notin> set a \<Longrightarrow> c \<notin> set a' \<Longrightarrow> a @ c # r = a' @ c # r' \<longleftrightarrow> a = a' \<and> r = r'"
proof (induction a arbitrary: a')
  case Nil
  then show ?case by (cases a') auto
next
  case (Cons x a)
  then show ?case by (cases a') auto
qed

lemma bucket_id_eq_iff:
  "bucket_id a = bucket_id b \<longleftrightarrow>
     toFixed3 (lat a) = toFixed3 (lat b) \<and> toFixed3 (lon a) = toFixed3 (lon b) \<and> name a = name b"
proof -
  have 1: "CHR '','' \<notin> set (toFixed3 (lat a))" "CHR '','' \<notin> set (toFixed3 (lat b))"
    "CHR '':'' \<notin> set (toFixed3 (lon a))" "CHR '':'' \<notin> set (toFixed3 (lon b))"
    using toFixed3_no_delimiter by (simp_all add: no_delimiter_def)
  have "bucket_id a = bucket_id b \<longleftrightarrow>
        toFixed3 (lat a) = toFixed3 (lat b) \<and>
        toFixed3 (lon a) @ CHR '':'' # name a = toFixed3 (lon b) @ CHR '':'' # name b"
    unfolding bucket_id_def using split_at_delimiter[OF 1(1,2)] by simp
  also have "\<dots> \<longleftrightarrow> toFixed3 (lat a) = toFixed3 (lat b) \<and> toFixed3 (lon a) = toFixed3 (lon b)
                    \<and> name a = name b"
    using split_at_delimiter[OF 1(3,4)] by simp
  finally show ?thesis .
qed

lemma add_mention_other:
  "k \<noteq> bucket_id loc \<Longrightarrow> map_of (add_mention c bs loc) k = map_of bs k"
  by (simp add: add_mention_def Let_def update_conv')

lemma add_mention_present:
  "map_of bs (bucket_id loc) = Some b \<Longrightarrow>
   map_of (add_mention c bs loc) (bucket_id loc) = Some (b\<lparr>counts := bump c (counts b)\<rparr>)"
  by (simp add: add_mention_def Let_def update_conv')

lemma add_mention_absent:
  "map_of bs (bucket_id loc) = None \<Longrightarrow>
   map_of (add_mention c bs loc) (bucket_id loc) =
     Some \<lparr>name = name loc, lat = lat loc, lon = lon loc, country = country loc,
           counts = bump c []\<rparr>"
  by (simp add: add_mention_def Let_def update_conv')

lemma seed_add_mention:
  "map_option bucket_geo (map_of (add_mention c bs loc) k) =
     (case map_option bucket_geo (map_of bs k) of
        Some g \<Rightarrow> Some g
      | None \<Rightarrow> if bucket_id loc = k then Some loc else None)"
proof (cases "k = bucket_id loc")
  case False
  then show ?thesis by (auto simp: add_mention_other split: option.splits)
next
  case True
  show ?thesis
  proof (cases "map_of bs (bucket_id loc)")
    case None
    then show ?thesis
      unfolding True by (simp add: add_mention_absent bucket_geo_def)
  next
    case (Some b)
    then show ?thesis
      unfolding True by (simp add: add_mention_present bucket_geo_def)
  qed
qed

lemma seed_fold_mentions:
  "map_option bucket_geo (map_of (foldl (add_mention c) bs locs) k) =
     (case map_option bucket_geo (map_of bs k) of
        Some g \<Rightarrow> Some g
      | None \<Rightarrow> find (\<lambda>loc. bucket_id loc = k) locs)"
proof (induction locs arbitrary: bs)
  case Nil
  then show ?case by (simp split: option.splits)
next
  case (Cons loc locs)
  show ?case
    by (simp add: Cons.IH seed_add_mention split: option.splits)
qed

lemma find_append_case:
  "find P (xs @ ys) = (case find P xs of Some x \<Rightarrow> Some x | None \<Rightarrow> find P ys)"
  by (induction xs) auto

lemma seed_fold_rows:
  "map_option bucket_geo (map_of (foldl add_row bs gkg) k) =
     (case map_option bucket_geo (map_of bs k) of
        Some g \<Rightarrow> Some g
      | None \<Rightarrow> find (\<lambda>loc. bucket_id loc = k) (classified_mentions gkg))"
proof (induction gkg arbitrary: bs)
  case Nil
  then show ?case by (simp add: classified_mentions_def split: option.splits)
next
  case (Cons row gkg)
  show ?case
  proof (cases "mapThemesToCategory (themes row)")
    case None
    then have ar: "add_row bs row = bs" by (simp add: add_row_def)
    from None have cm: "classified_mentions (row # gkg) = classified_mentions gkg"
      by (simp add: classified_mentions_def)
    show ?thesis
      using Cons.IH[of bs] by (simp only: foldl_Cons ar cm)
  next
    case (Some c)
    then have ar: "add_row bs row = foldl (add_mention c) bs (locations row)"
      by (simp add: add_row_def)
    from Some have cm: "classified_mentions (row # gkg) = locations row @ classified_mentions gkg"
      by (simp add: classified_mentions_def)
    have "map_option bucket_geo (map_of (foldl add_row (add_row bs row) gkg) k) =
          (case map_option bucket_geo (map_of (add_row bs row) k) of
             Some g \<Rightarrow> Some g
           | None \<Rightarrow> find (\<lambda>loc. bucket_id loc = k) (classified_mentions gkg))"
      by (rule Cons.IH)
    also have "map_option bucket_geo (map_of (add_row bs row) k) =
          (case map_option bucket_geo (map_of bs k) of
             Some g \<Rightarrow> Some g
           | None \<Rightarrow> find (\<lambda>loc. bucket_id loc = k) (locations row))"
      unfolding ar by (rule seed_fold_mentions)
    finally show ?thesis
      unfolding cm find_append_case foldl_Cons by (simp split: option.splits)
  qed
qed

lemma seed_aggregate:
  "map_option bucket_geo (map_of (aggregate gkg) k) =
     find (\<lambda>loc. bucket_id loc = k) (classified_mentions gkg)"
  by (simp add: aggregate_def seed_fold_rows)


text \<open>
  Claim C8, as the code has it. Two mentions have the same bucket key exactly when the
  \<open>toFixed(3)\<close> renderings of their latitudes coincide, those of their longitudes
  coincide, and their names coincide. The bucket under a key has the name, latitude,
  longitude and country of the first mention with that key among the facts that have a
  category; a mention whose key is present changes only \<open>counts\<close> of that bucket, a
  mention whose key is absent creates the bucket from its own fields, and no mention
  touches the bucket of another key.
\<close>

theorem bucket_key_first_seen:
  "(bucket_id a = bucket_id b \<longleftrightarrow>
      toFixed3 (lat a) = toFixed3 (lat b) \<and> toFixed3 (lon a) = toFixed3 (lon b)
      \<and> name a = name b)
   \<and> map_option bucket_geo (map_of (aggregate gkg) k) =
       find (\<lambda>loc. bucket_id loc = k) (classified_mentions gkg)
   \<and> map_of (add_mention c bs loc) k =
       (if k = bucket_id loc then
          Some (case map_of bs k of
                  Some old \<Rightarrow> old\<lparr>counts := bump c (counts old)\<rparr>
                | None \<Rightarrow> \<lparr>name = name loc, lat = lat loc, lon = lon loc,
                           country = country loc, counts = [(c, 1)]\<rparr>)
        else map_of bs k)"
proof (intro conjI)
  show "bucket_id a = bucket_id b \<longleftrightarrow>
      toFixed3 (lat a) = toFixed3 (lat b) \<and> toFixed3 (lon a) = toFixed3 (lon b)
      \<and> name a = name b"
    by (rule bucket_id_eq_iff)
  show "map_option bucket_geo (map_of (aggregate gkg) k) =
       find (\<lambda>loc. bucket_id loc = k) (classified_mentions gkg)"
    by (rule seed_aggregate)
  show "map_of (add_mention c bs loc) k =
       (if k = bucket_id loc then
          Some (case map_of bs k of
                  Some old \<Rightarrow> old\<lparr>counts := bump c (counts old)\<rparr>
                | None \<Rightarrow> \<lparr>name = name loc, lat = lat loc, lon = lon loc,
                           country = country loc, counts = [(c, 1)]\<rparr>)
        else map_of bs k)"
  proof (cases "k = bucket_id loc")
    case False
    then show ?thesis by (simp add: add_mention_other)
  next
    case True
    show ?thesis
    proof (cases "map_of bs (bucket_id loc)")
      case None
      then show ?thesis unfolding True by (simp add: add_mention_absent bump_def)
    next
      case (Some old)
      then show ?thesis unfolding True by (simp add: add_mention_present)
    qed
  qed
qed

theorem bucket_key_first_seen_witness:
  "bucket_id (kyiv\<lparr>country := ''RU''\<rparr>) = bucket_id kyiv
   \<and> map_of (add_mention ''war'' (add_mention ''war'' [] kyiv) (kyiv\<lparr>country := ''RU''\<rparr>))
        (bucket_id kyiv)
       = Some \<lparr>name = ''Kyiv'', lat = Fin (101 / 2), lon = Fin (61 / 2), country = ''UA'',
               counts = [(''war'', 2)]\<rparr>
   \<and> map_option bucket_geo (map_of (aggregate [war_row]) (bucket_id kyiv)) = Some kyiv"
proof -
  have same: "toFixed3 (lat (kyiv\<lparr>country := ''RU''\<rparr>)) = toFixed3 (lat kyiv)
              \<and> toFixed3 (lon (kyiv\<lparr>country := ''RU''\<rparr>)) = toFixed3 (lon kyiv)
              \<and> name (kyiv\<lparr>country := ''RU''\<rparr>) = name kyiv"
    by simp
  have first: "find (\<lambda>loc. bucket_id loc = bucket_id kyiv) (classified_mentions [war_row])
               = Some kyiv"
    by code_simp
  have old: "(case map_of (add_mention ''war'' [] kyiv) (bucket_id kyiv) of
                Some old \<Rightarrow> old\<lparr>counts := bump ''war'' (counts old)\<rparr>
              | None \<Rightarrow> \<lparr>name = name (kyiv\<lparr>country := ''RU''\<rparr>),
                         lat = lat (kyiv\<lparr>country := ''RU''\<rparr>),
                         lon = lon (kyiv\<lparr>country := ''RU''\<rparr>),
                         country = country (kyiv\<lparr>country := ''RU''\<rparr>),
                         counts = [(''war'', 1)]\<rparr>)
             = \<lparr>name = ''Kyiv'', lat = Fin (101 / 2), lon = Fin (61 / 2), country = ''UA'',
                counts = [(''war'', 2)]\<rparr>"
    by code_simp
  note inst = bucket_key_first_seen
      [of "kyiv\<lparr>country := ''RU''\<rparr>" kyiv "[war_row]" "bucket_id kyiv" "''war''"
          "add_mention ''war'' [] kyiv" "kyiv\<lparr>country := ''RU''\<rparr>"]
  from inst same have k: "bucket_id (kyiv\<lparr>country := ''RU''\<rparr>) = bucket_id kyiv"
    by blast
  from inst have "map_option bucket_geo (map_of (aggregate [war_row]) (bucket_id kyiv)) =
       find (\<lambda>loc. bucket_id loc = bucket_id kyiv) (classified_mentions [war_row])"
    by blast
  then have g: "map_option bucket_geo (map_of (aggregate [war_row]) (bucket_id kyiv)) = Some kyiv"
    unfolding first .
  from inst have "map_of (add_mention ''war'' (add_mention ''war'' [] kyiv) (kyiv\<lparr>country := ''RU''\<rparr>))
        (bucket_id kyiv) =
       (if bucket_id kyiv = bucket_id (kyiv\<lparr>country := ''RU''\<rparr>) then
          Some (case map_of (add_mention ''war'' [] kyiv) (bucket_id kyiv) of
                  Some old \<Rightarrow> old\<lparr>counts := bump ''war'' (counts old)\<rparr>
                | None \<Rightarrow> \<lparr>name = name (kyiv\<lparr>country := ''RU''\<rparr>),
                           lat = lat (kyiv\<lparr>country := ''RU''\<rparr>),
                           lon = lon (kyiv\<lparr>country := ''RU''\<rparr>),
                           country = country (kyiv\<lparr>country := ''RU''\<rparr>),
                           counts = [(''war'', 1)]\<rparr>)
        else map_of (add_mention ''war'' [] kyiv) (bucket_id kyiv))"
    by blast
  then have u: "map_of (add_mention ''war'' (add_mention ''war'' [] kyiv) (kyiv\<lparr>country := ''RU''\<rparr>))
        (bucket_id kyiv)
       = Some \<lparr>name = ''Kyiv'', lat = Fin (101 / 2), lon = Fin (61 / 2), country = ''UA'',
               counts = [(''war'', 2)]\<rparr>"
    unfolding old k by simp
  show ?thesis by (intro conjI k u g)
qed

text \<open>
  The claim as stated fails: two mentions of one name whose latitudes both round to 0
  at three decimals, one negative and one positive, with the same longitude, get the
  keys \<open>-0.000,0.000:Equator\<close> and \<open>0.000,0.000:Equator\<close> and so two buckets.
\<close>

theorem rounded_equal_two_buckets:
  "round3 (lat south) = round3 (lat north) \<and> round3 (lon south) = round3 (lon north)
   \<and> name south = name north
   \<and> map fst (aggregate [\<lparr>themes = [''WAR''], locations = [south, north]\<rparr>])
       = [''-0.000,0.000:Equator'', ''0.000,0.000:Equator'']"
  by code_simp


section \<open>Properties of the ranking\<close>

lemma lookup_push_ranked:
  "(case map_of (push_ranked p cats e) c of None \<Rightarrow> [] | Some l \<Rightarrow> l) =
     (case map_of cats c of None \<Rightarrow> [] | Some l \<Rightarrow> l)
     @ (if fst e = c then [with_score p (snd e)] else [])"
  by (simp add: push_ranked_def update_conv')

lemma lookup_fold_push:
  "(case map_of (foldl (push_ranked p) cats es) c of None \<Rightarrow> [] | Some l \<Rightarrow> l) =
     (case map_of cats c of None \<Rightarrow> [] | Some l \<Rightarrow> l)
     @ map (\<lambda>e. with_score p (snd e)) (filter (\<lambda>e. fst e = c) es)"
proof (induction es arbitrary: cats)
  case Nil
  then show ?case by simp
next
  case (Cons e es)
  show ?case
    unfolding foldl_Cons Cons.IH lookup_push_ranked by simp
qed

lemma lookup_fold_places:
  "(case map_of (foldl (\<lambda>cats p. foldl (push_ranked p) cats (counts p)) cats ps) c of
      None \<Rightarrow> [] | Some l \<Rightarrow> l) =
     (case map_of cats c of None \<Rightarrow> [] | Some l \<Rightarrow> l) @ ranked_candidates c ps"
proof (induction ps arbitrary: cats)
  case Nil
  then show ?case by (simp add: ranked_candidates_def)
next
  case (Cons p ps)
  show ?case
    unfolding foldl_Cons Cons.IH lookup_fold_push by (simp add: ranked_candidates_def)
qed

lemma group_places_lookup:
  "(c, l) \<in> set (group_places ps) \<Longrightarrow> l = ranked_candidates c ps"
proof -
  assume "(c, l) \<in> set (group_places ps)"
  moreover have "distinct (map fst (group_places ps))"
    by (simp add: group_places_def distinct_group_fold)
  ultimately have "map_of (group_places ps) c = Some l" by simp
  then have "(case map_of (group_places ps) c of None \<Rightarrow> [] | Some l \<Rightarrow> l) = l" by simp
  then show ?thesis
    unfolding group_places_def lookup_fold_places by simp
qed

lemma rankPlaces_lookup:
  "(c, l) \<in> set (rankPlaces cfg ps) \<Longrightarrow>
   l = slice0 (TOP_N cfg) (orderBy_score_desc (ranked_candidates c ps))"
proof -
  assume "(c, l) \<in> set (rankPlaces cfg ps)"
  then obtain l0 where "(c, l0) \<in> set (group_places ps)"
    "l = slice0 (TOP_N cfg) (orderBy_score_desc l0)"
    by (auto simp: rankPlaces_def)
  then show ?thesis using group_places_lookup by blast
qed

lemma slice0_take: "\<exists>n. slice0 k xs = take n xs"
  by (auto simp: slice0_def)

lemma length_slice0: "0 \<le> k \<Longrightarrow> int (length (slice0 k xs)) \<le> k"
  by (simp add: slice0_def)

lemma filter_take_prefix: "prefix (filter P (take n xs)) (filter P xs)"
proof -
  have "filter P xs = filter P (take n xs) @ filter P (drop n xs)"
    by (metis append_take_drop_id filter_append)
  then show ?thesis by (simp add: prefix_def)
qed

lemma orderBy_sorted: "sorted_wrt (\<lambda>a b. score b \<le> score a) (orderBy_score_desc xs)"
proof -
  have "sorted (map (\<lambda>p. - int (score p)) (sort_key (\<lambda>p. - int (score p)) xs))"
    by (rule sorted_sort_key)
  then show ?thesis
    by (simp add: orderBy_score_desc_def sorted_map)
qed

lemma orderBy_stable:
  "filter (\<lambda>p. score p = s) (orderBy_score_desc xs) = filter (\<lambda>p. score p = s) xs"
proof -
  have "(\<lambda>p. - int (score p) = - int s) = (\<lambda>p::ranked. score p = s)" by auto
  then show ?thesis
    using sort_key_stable[of "\<lambda>p. - int (score p)" "- int s" xs]
    by (simp add: orderBy_score_desc_def)
qed


lemma length_slice0_negative:
  "k < 0 \<Longrightarrow> int (length (slice0 k xs)) = max 0 (int (length xs) + k)"
  by (auto simp: slice0_def)

text \<open>
  Claim C6, as the code has it. In every category of the ranker's output the scores
  are non-increasing, and the places of any one score are an initial part of the places
  of that score in first-seen order, the order of the aggregation map: ties keep that
  order. The list is \<open>slice(0, TOP_N)\<close> of the sorted places: it has at most \<open>TOP_N\<close> places
  when \<open>TOP_N\<close> is not negative (8 by default), and it is the sorted places without the
  last \<open>-TOP_N\<close> of them when \<open>TOP_N\<close> is negative.
\<close>

theorem rankPlaces_sorted_capped_stable:
  "TOP_N default_config = 8
   \<and> ((c, l) \<in> set (rankPlaces cfg ps) \<longrightarrow>
        sorted_wrt (\<lambda>a b. score b \<le> score a) l
        \<and> (0 \<le> TOP_N cfg \<longrightarrow> int (length l) \<le> TOP_N cfg)
        \<and> (\<forall>s. prefix (filter (\<lambda>p. score p = s) l)
                       (filter (\<lambda>p. score p = s) (ranked_candidates c ps)))
        \<and> l = slice0 (TOP_N cfg) (orderBy_score_desc (ranked_candidates c ps))
        \<and> (TOP_N cfg < 0 \<longrightarrow>
             int (length l) = max 0 (int (length (ranked_candidates c ps)) + TOP_N cfg)))"
proof (intro conjI impI allI)
  show "TOP_N default_config = 8" by (simp add: default_config_def)
next
  assume "(c, l) \<in> set (rankPlaces cfg ps)"
  then show l: "l = slice0 (TOP_N cfg) (orderBy_score_desc (ranked_candidates c ps))"
    by (rule rankPlaces_lookup)
  obtain n where n: "l = take n (orderBy_score_desc (ranked_candidates c ps))"
    using l slice0_take by metis
  show "sorted_wrt (\<lambda>a b. score b \<le> score a) l"
    unfolding n by (rule sorted_wrt_take) (rule orderBy_sorted)
  show "int (length l) \<le> TOP_N cfg" if "0 \<le> TOP_N cfg"
    unfolding l using that by (rule length_slice0)
  show "prefix (filter (\<lambda>p. score p = s) l)
               (filter (\<lambda>p. score p = s) (ranked_candidates c ps))" for s
    using filter_take_prefix[of "\<lambda>p. score p = s" n "orderBy_score_desc (ranked_candidates c ps)"]
    unfolding n orderBy_stable .
  show "int (length l) = max 0 (int (length (ranked_candidates c ps)) + TOP_N cfg)"
    if "TOP_N cfg < 0"
    unfolding l length_slice0_negative[OF that] by (simp add: orderBy_score_desc_def)
qed

theorem rankPlaces_sorted_capped_stable_witness:
  "(''war'', [with_score (three_buckets ! 1) 2, with_score (three_buckets ! 2) 2])
     \<in> set (rankPlaces (default_config\<lparr>TOP_N := 2\<rparr>) three_buckets)
   \<and> (0::int) \<le> TOP_N (default_config\<lparr>TOP_N := 2\<rparr>)
   \<and> sorted_wrt (\<lambda>a b. score b \<le> score a)
        [with_score (three_buckets ! 1) 2, with_score (three_buckets ! 2) 2]
   \<and> int (length [with_score (three_buckets ! 1) 2, with_score (three_buckets ! 2) 2])
        \<le> TOP_N (default_config\<lparr>TOP_N := 2\<rparr>)
   \<and> prefix (filter (\<lambda>p. score p = 2)
               [with_score (three_buckets ! 1) 2, with_score (three_buckets ! 2) 2])
             (filter (\<lambda>p. score p = 2) (ranked_candidates ''war'' three_buckets))"
proof -
  let ?l = "[with_score (three_buckets ! 1) 2, with_score (three_buckets ! 2) 2]"
  let ?cfg = "default_config\<lparr>TOP_N := 2\<rparr>"
  have r: "rankPlaces ?cfg three_buckets = [(''war'', ?l)]"
    by code_simp
  then have m: "(''war'', ?l) \<in> set (rankPlaces ?cfg three_buckets)" by simp
  have n: "(0::int) \<le> TOP_N ?cfg" by simp
  from rankPlaces_sorted_capped_stable [of "''war''" ?l ?cfg three_buckets] m n
  have "sorted_wrt (\<lambda>a b. score b \<le> score a) ?l"
    and "int (length ?l) \<le> TOP_N ?cfg"
    and "prefix (filter (\<lambda>p. score p = 2) ?l)
                (filter (\<lambda>p. score p = 2) (ranked_candidates ''war'' three_buckets))"
    by blast+
  with m n show ?thesis by blast
qed


text \<open>
  The claim as stated fails: with \<open>TOP_N = -2\<close> and three places in a category the
  ranker keeps one place, more than the configured number.
\<close>

theorem negative_top_keeps_a_place:
  "TOP_N negative_top_config = - 2
   \<and> rankPlaces negative_top_config three_buckets
       = [(''war'', [with_score (three_buckets ! 1) 2])]
   \<and> \<not> int (length [with_score (three_buckets ! 1) 2]) \<le> TOP_N negative_top_config"
  by code_simp

section \<open>Properties of the enricher\<close>



lemma search_stops:
  "ytSearch cfg yt (nm @ '' '' @ kw) = Inl e \<Longrightarrow>
   snd (search_phrases cfg yt nm cs (pre @ kw # post)) = snd (search_phrases cfg yt nm cs pre)"
proof (induction pre arbitrary: cs)
  case Nil
  then show ?case by simp
next
  case (Cons k pre)
  show ?case
    using Cons.IH[OF Cons.prems] by (simp split: sum.splits)
qed

lemma search_silent:
  "\<forall>kw \<in> set ks. ytSearch cfg yt (nm @ '' '' @ kw) = Inr [] \<Longrightarrow>
   search_phrases cfg yt nm cs ks = (None, cs)"
  by (induction ks arbitrary: cs) auto

lemma search_cong:
  "\<forall>kw \<in> set ks. yt (nm @ '' '' @ kw) = yt' (nm @ '' '' @ kw) \<Longrightarrow>
   search_phrases cfg yt nm cs ks = search_phrases cfg yt' nm cs ks"
  by (induction ks arbitrary: cs) (auto simp: ytSearch_def split: sum.splits)

lemma search_full:
  "MAX_CAMS cfg \<le> int (length cs) \<Longrightarrow> search_phrases cfg yt nm cs ks = (None, cs)"
  by (cases ks) simp_all

lemma search_append:
  "snd (search_phrases cfg yt nm cs (pre @ post)) =
     (case search_phrases cfg yt nm cs pre of
        (Some e, cs') \<Rightarrow> cs'
      | (None, cs') \<Rightarrow> snd (search_phrases cfg yt nm cs' post))"
proof (induction pre arbitrary: cs)
  case Nil
  then show ?case by simp
next
  case (Cons k pre)
  show ?case
    using Cons.IH by (simp add: search_full split: sum.splits)
qed

lemma distinct_kws: "distinct kws"
  by (simp add: kws_def)

lemma search_silenced:
  assumes "i < length kws"
  shows "snd (search_phrases cfg (silenced nm i yt) nm cs kws)
         = snd (search_phrases cfg yt nm cs (take i kws))"
proof -
  have disj: "kw \<notin> set (drop i kws)" if "kw \<in> set (take i kws)" for kw
    using that distinct_kws
    by (metis append_take_drop_id disjoint_iff distinct_append)
  have pre: "search_phrases cfg (silenced nm i yt) nm cs (take i kws)
             = search_phrases cfg yt nm cs (take i kws)"
    by (rule search_cong) (auto simp: silenced_def dest: disj)
  have post: "search_phrases cfg (silenced nm i yt) nm cs' (drop i kws) = (None, cs')" for cs'
    by (rule search_silent) (auto simp: silenced_def ytSearch_def)
  have "snd (search_phrases cfg (silenced nm i yt) nm cs (take i kws @ drop i kws))
        = snd (search_phrases cfg yt nm cs (take i kws))"
    unfolding search_append pre post by (simp split: prod.splits option.splits)
  then show ?thesis by simp
qed





text \<open>
  Claim C2, as the code has it. The \<open>try\<close> block encloses the whole loop over the
  phrases: when the search for a phrase fails, the loop ends, the cameras collected from
  the phrases before it stay, and no later phrase is searched. The result is the one the
  phrases before the failing one give; it is also the result obtained if the failing
  phrase and every later phrase had zero results.
\<close>

theorem search_failure_ends_fallback:
  "i < length kws \<longrightarrow>
   ytSearch cfg (yt_response net) (name p @ '' '' @ kws ! i) = Inl e \<longrightarrow>
     snd (search_phrases cfg (yt_response net) (name p) cs kws)
       = snd (search_phrases cfg (yt_response net) (name p) cs (take i kws))
     \<and> findCamsForPlace cfg net p
       = findCamsForPlace cfg (net\<lparr>yt_response := silenced (name p) i (yt_response net)\<rparr>) p"
proof (intro impI)
  assume i: "i < length kws"
    and f: "ytSearch cfg (yt_response net) (name p @ '' '' @ kws ! i) = Inl e"
  have stop: "snd (search_phrases cfg (yt_response net) (name p) cs' kws)
       = snd (search_phrases cfg (yt_response net) (name p) cs' (take i kws))" for cs'
    using search_stops[OF f, of cs' "take i kws" "drop (Suc i) kws"] i
    by (simp add: id_take_nth_drop[symmetric])
  have "findCamsForPlace cfg net p
       = findCamsForPlace cfg (net\<lparr>yt_response := silenced (name p) i (yt_response net)\<rparr>) p"
    by (simp add: findCamsForPlace_def Let_def stop search_silenced[OF i])
  with stop show "snd (search_phrases cfg (yt_response net) (name p) cs kws)
       = snd (search_phrases cfg (yt_response net) (name p) cs (take i kws))
     \<and> findCamsForPlace cfg net p
       = findCamsForPlace cfg (net\<lparr>yt_response := silenced (name p) i (yt_response net)\<rparr>) p"
    by simp
qed
theorem search_failure_ends_fallback_witness:
  "(1::nat) < length kws
   \<and> ytSearch keyed_config (yt_response late_failure_providers)
        (name kyiv_ranked @ '' '' @ kws ! 1) = Inl (Error ''quota'')
   \<and> findCamsForPlace keyed_config late_failure_providers kyiv_ranked = [yt_camera live_item]
   \<and> findCamsForPlace keyed_config
        (late_failure_providers
           \<lparr>yt_response := silenced (name kyiv_ranked) 1 (yt_response late_failure_providers)\<rparr>)
        kyiv_ranked = [yt_camera live_item]"
proof -
  have i: "(1::nat) < length kws" by (simp add: kws_def)
  have f: "ytSearch keyed_config (yt_response late_failure_providers)
             (name kyiv_ranked @ '' '' @ kws ! 1) = Inl (Error ''quota'')"
    by code_simp
  have r: "findCamsForPlace keyed_config late_failure_providers kyiv_ranked
           = [yt_camera live_item]"
    by code_simp
  from search_failure_ends_fallback
         [of 1 keyed_config late_failure_providers kyiv_ranked "Error ''quota''"] i f
  have "findCamsForPlace keyed_config late_failure_providers kyiv_ranked
        = findCamsForPlace keyed_config
            (late_failure_providers
               \<lparr>yt_response := silenced (name kyiv_ranked) 1 (yt_response late_failure_providers)\<rparr>)
            kyiv_ranked"
    by blast
  then have "findCamsForPlace keyed_config
        (late_failure_providers
           \<lparr>yt_response := silenced (name kyiv_ranked) 1 (yt_response late_failure_providers)\<rparr>)
        kyiv_ranked = [yt_camera live_item]"
    unfolding r by (rule sym)
  with i f r show ?thesis by blast
qed

text \<open>
  The claim as stated fails: with a search that fails on the first phrase and has a
  live video for the second, no camera is returned, while zero results for the first
  phrase alone would have let the second phrase contribute its video.
\<close>

theorem search_failure_skips_later_phrases:
  "ytSearch keyed_config (yt_response flaky_providers) (name kyiv_ranked @ '' '' @ kws ! 0)
     = Inl (Error ''quota'')
   \<and> ytSearch keyed_config (yt_response flaky_providers) (name kyiv_ranked @ '' '' @ kws ! 1)
     = Inr [yt_camera live_item]
   \<and> findCamsForPlace keyed_config flaky_providers kyiv_ranked = []
   \<and> findCamsForPlace keyed_config patched_providers kyiv_ranked = [yt_camera live_item]"
  by code_simp

end
